theory Spec2Isabelle
  imports Main "HOL-Library.Word"
begin

unbundle bit_operations_syntax

section \<open>The Tegra I2C packet engine (drivers/i2c/tegra_i2c.c)\<close>

text \<open>
  The driver talks to a memory-mapped controller through \<^verbatim>\<open>readl\<close>, \<open>writel\<close>,
  \<^verbatim>\<open>udelay\<close>, \<^verbatim>\<open>reset_periph\<close> and the clock and pinmux helpers. The model keeps the
  driver's control flow as it is written and makes the hardware an argument: a function
  \<open>hw\<close> that answers every action of the driver and moves the device to its next state.
  Every action is also appended, with its answer, to a trace, so that a statement can
  count and order the register accesses of a call.

  C types: \<^verbatim>\<open>u32\<close>, \<^verbatim>\<open>unsigned\<close> and pointers are 32-bit words (the target is a 32-bit ARM
  core); \<^verbatim>\<open>int\<close> is a 32-bit word read in two's complement, so \<open>-1\<close> is \<open>0xFFFFFFFF\<close>;
  \<^verbatim>\<open>uchar\<close> is an 8-bit word. Memory is a map from addresses to bytes, and a 32-bit load
  or store is little-endian, the byte order of the target.
\<close>

type_synonym u8 = "8 word"
type_synonym u32 = "32 word"
type_synonym s32 = "32 word"

subsection \<open>Constants of the absent header asm/arch-tegra/tegra_i2c.h\<close>

text \<open>
  The bit positions, masks, the FIFO depth and the poll budget are macros of headers
  that are not part of the sources. They are taken as a parameter \<open>C\<close> of every function
  that uses them; shift amounts are naturals, masks and field values are words, the
  budget \<^verbatim>\<open>I2C_TIMEOUT_USEC\<close> is an integer.
\<close>

record i2c_consts =
  I2C_CNFG_NEW_MASTER_FSM_MASK :: u32
  I2C_CNFG_PACKET_MODE_MASK :: u32
  I2C_SL_CNFG_NEWSL_MASK :: u32
  DVC_CTRL_REG3_I2C_HW_SW_PROG_MASK :: u32
  PROTOCOL_TYPE_I2C :: u32
  PKT_HDR1_PROTOCOL_SHIFT :: nat
  PKT_HDR1_PKT_ID_SHIFT :: nat
  PKT_HDR1_CTLR_ID_SHIFT :: nat
  PKT_HDR2_PAYLOAD_SIZE_SHIFT :: nat
  PKT_HDR3_SLAVE_ADDR_SHIFT :: nat
  PKT_HDR3_READ_MODE_MASK :: u32
  I2C_IS_WRITE :: u32
  I2C_TIMEOUT_USEC :: int
  I2C_FIFO_DEPTH :: u32
  TX_FIFO_EMPTY_CNT_MASK :: u32
  TX_FIFO_EMPTY_CNT_SHIFT :: nat
  TX_FIFO_FULL_CNT_MASK :: u32
  TX_FIFO_FULL_CNT_SHIFT :: nat
  I2C_INT_NO_ACK_MASK :: u32
  I2C_INT_ARBITRATION_LOST_MASK :: u32
  I2C_INT_XFER_COMPLETE_MASK :: u32
  CLOCK_ID_PERIPH :: u32
  CLK_MULT_STD_FAST_MODE :: u32

subsection \<open>Registers, actions and the machine state\<close>

text \<open>
  \<^verbatim>\<open>struct i2c_bus\<close>; its field \<^verbatim>\<open>id\<close> is \<open>bus_id\<close> here. The pointers \<open>regs\<close> and
  \<open>control\<close> are kept as addresses; a register is named by its field and the address of
  the block it belongs to.
\<close>

record i2c_bus =
  bus_id :: s32
  periph_id :: s32
  speed :: s32
  pinmux_config :: s32
  control :: u32
  regs :: u32
  is_dvc :: s32
  is_scs :: s32
  inited :: s32

text \<open>\<^verbatim>\<open>struct i2c_trans_info\<close>, with the fields the driver assigns.\<close>

record i2c_trans_info =
  address :: u32
  buf :: u32
  flags :: u32
  num_bytes :: u32
  is_10bit_address :: s32

datatype reg =
    Tx_fifo u32
  | Rx_fifo u32
  | Fifo_status u32
  | Int_status u32
  | I2c_cnfg u32
  | I2c_sl_cnfg u32
  | I2c_clk_div u32
  | Dvc_cnfg u32
  | Dvc_ctrl3 u32

datatype action =
    Readl reg
  | Writel reg u32
  | Udelay nat
  | Reset_periph s32 s32
  | Clock_start_periph_pll s32 u32 u32
  | Funcmux_select s32 s32

record 'h sys =
  dev :: 'h
  ram :: "u32 \<Rightarrow> u8"
  trace :: "(action \<times> u32) list"
  i2c_controllers :: "i2c_bus list"

type_synonym 'h hardware = "action \<Rightarrow> 'h \<Rightarrow> u32 \<times> 'h"

definition io :: "'h hardware \<Rightarrow> action \<Rightarrow> 'h sys \<Rightarrow> u32 \<times> 'h sys" where
  "io hw a s =
     (case hw a (dev s) of
        (v, d) \<Rightarrow> (v, s\<lparr>dev := d, trace := trace s @ [(a, v)]\<rparr>))"

definition readl :: "'h hardware \<Rightarrow> reg \<Rightarrow> 'h sys \<Rightarrow> u32 \<times> 'h sys" where
  "readl hw r s = io hw (Readl r) s"

definition writel :: "'h hardware \<Rightarrow> u32 \<Rightarrow> reg \<Rightarrow> 'h sys \<Rightarrow> 'h sys" where
  "writel hw v r s = snd (io hw (Writel r v) s)"

definition udelay :: "'h hardware \<Rightarrow> nat \<Rightarrow> 'h sys \<Rightarrow> 'h sys" where
  "udelay hw n s = snd (io hw (Udelay n) s)"

definition reset_periph :: "'h hardware \<Rightarrow> s32 \<Rightarrow> s32 \<Rightarrow> 'h sys \<Rightarrow> 'h sys" where
  "reset_periph hw pid us s = snd (io hw (Reset_periph pid us) s)"

definition clock_start_periph_pll ::
  "'h hardware \<Rightarrow> s32 \<Rightarrow> u32 \<Rightarrow> u32 \<Rightarrow> 'h sys \<Rightarrow> 'h sys" where
  "clock_start_periph_pll hw pid parent rate s =
     snd (io hw (Clock_start_periph_pll pid parent rate) s)"

definition funcmux_select :: "'h hardware \<Rightarrow> s32 \<Rightarrow> s32 \<Rightarrow> 'h sys \<Rightarrow> 'h sys" where
  "funcmux_select hw pid config s = snd (io hw (Funcmux_select pid config) s)"

text \<open>\<^verbatim>\<open>setbits_le32(addr, set)\<close>: read the register, write it back with the bits set.\<close>

definition setbits_le32 :: "'h hardware \<Rightarrow> reg \<Rightarrow> u32 \<Rightarrow> 'h sys \<Rightarrow> 'h sys" where
  "setbits_le32 hw r m s = (case readl hw r s of (v, s1) \<Rightarrow> writel hw (v OR m) r s1)"

subsection \<open>Bytes and words in memory\<close>

definition load_bytes :: "(u32 \<Rightarrow> u8) \<Rightarrow> u32 \<Rightarrow> nat \<Rightarrow> u8 list" where
  "load_bytes m p n = map (\<lambda>i. m (p + of_nat i)) [0..<n]"

fun store_bytes :: "(u32 \<Rightarrow> u8) \<Rightarrow> u32 \<Rightarrow> u8 list \<Rightarrow> (u32 \<Rightarrow> u8)" where
  "store_bytes m p [] = m"
| "store_bytes m p (b # bs) = store_bytes (m(p := b)) (p + 1) bs"

text \<open>The value of a 32-bit object whose bytes, in address order, are \<open>bs\<close>.\<close>

fun word_of_bytes :: "u8 list \<Rightarrow> u32" where
  "word_of_bytes [] = 0"
| "word_of_bytes (b # bs) = ucast b OR push_bit 8 (word_of_bytes bs)"

text \<open>The bytes of a 32-bit object, in address order.\<close>

definition bytes_of_word :: "u32 \<Rightarrow> u8 list" where
  "bytes_of_word w = map (\<lambda>j. ucast (drop_bit (8 * j) w)) [0..<4]"

text \<open>\<^verbatim>\<open>*wptr\<close> as an rvalue, and \<^verbatim>\<open>*wptr = local\<close>.\<close>

definition load32 :: "(u32 \<Rightarrow> u8) \<Rightarrow> u32 \<Rightarrow> u32" where
  "load32 m p = word_of_bytes (load_bytes m p 4)"

definition store32 :: "(u32 \<Rightarrow> u8) \<Rightarrow> u32 \<Rightarrow> u32 \<Rightarrow> (u32 \<Rightarrow> u8)" where
  "store32 m p w = store_bytes m p (bytes_of_word w)"

text \<open>
  \<^verbatim>\<open>memcpy(&local, dptr, sizeof(u32))\<close> and \<^verbatim>\<open>memcpy(dptr, &local, n)\<close>: the local is an
  object of four bytes, copied from or to memory in address order.
\<close>

definition memcpy_to_local :: "(u32 \<Rightarrow> u8) \<Rightarrow> u32 \<Rightarrow> u32" where
  "memcpy_to_local m src = word_of_bytes (load_bytes m src 4)"

definition memcpy_from_local :: "(u32 \<Rightarrow> u8) \<Rightarrow> u32 \<Rightarrow> u32 \<Rightarrow> nat \<Rightarrow> (u32 \<Rightarrow> u8)" where
  "memcpy_from_local m dst local n = store_bytes m dst (take n (bytes_of_word local))"

subsection \<open>Recovery: set\_packet\_mode and i2c\_reset\_controller\<close>

definition set_packet_mode :: "i2c_consts \<Rightarrow> 'h hardware \<Rightarrow> i2c_bus \<Rightarrow> 'h sys \<Rightarrow> 'h sys" where
  "set_packet_mode C hw i2c_bus s =
     (let config = I2C_CNFG_NEW_MASTER_FSM_MASK C OR I2C_CNFG_PACKET_MODE_MASK C in
      if is_dvc i2c_bus \<noteq> 0 then writel hw config (Dvc_cnfg (regs i2c_bus)) s
      else setbits_le32 hw (I2c_sl_cnfg (regs i2c_bus)) (I2C_SL_CNFG_NEWSL_MASK C)
             (writel hw config (I2c_cnfg (regs i2c_bus)) s))"

definition i2c_reset_controller ::
  "i2c_consts \<Rightarrow> 'h hardware \<Rightarrow> i2c_bus \<Rightarrow> 'h sys \<Rightarrow> 'h sys" where
  "i2c_reset_controller C hw i2c_bus s =
     set_packet_mode C hw i2c_bus (reset_periph hw (periph_id i2c_bus) 1 s)"

definition i2c_init_controller ::
  "i2c_consts \<Rightarrow> 'h hardware \<Rightarrow> i2c_bus \<Rightarrow> 'h sys \<Rightarrow> 'h sys" where
  "i2c_init_controller C hw i2c_bus s =
     (let s1 = clock_start_periph_pll hw (periph_id i2c_bus) (CLOCK_ID_PERIPH C)
                 (speed i2c_bus * 2 * 8) s;
          s2 = (if is_scs i2c_bus \<noteq> 0 then
                  (case readl hw (I2c_clk_div (regs i2c_bus)) s1 of
                     (v, s') \<Rightarrow>
                       let clk_div_stdfst_mode = drop_bit 16 v in
                       clock_start_periph_pll hw (periph_id i2c_bus) (CLOCK_ID_PERIPH C)
                         (CLK_MULT_STD_FAST_MODE C * (clk_div_stdfst_mode + 1) *
                          speed i2c_bus * 2) s')
                else s1);
          s3 = i2c_reset_controller C hw i2c_bus s2;
          s4 = (if is_dvc i2c_bus \<noteq> 0 then
                  setbits_le32 hw (Dvc_ctrl3 (regs i2c_bus))
                    (DVC_CTRL_REG3_I2C_HW_SW_PROG_MASK C) s3
                else s3)
      in funcmux_select hw (periph_id i2c_bus) (pinmux_config i2c_bus) s4)"

subsection \<open>The packet header\<close>

definition header1 :: "i2c_consts \<Rightarrow> i2c_bus \<Rightarrow> u32 \<Rightarrow> u32" where
  "header1 C i2c_bus packet_id =
     push_bit (PKT_HDR1_PROTOCOL_SHIFT C) (PROTOCOL_TYPE_I2C C)
       OR push_bit (PKT_HDR1_PKT_ID_SHIFT C) packet_id
       OR push_bit (PKT_HDR1_CTLR_ID_SHIFT C) (bus_id i2c_bus)"

definition header2 :: "i2c_consts \<Rightarrow> i2c_trans_info \<Rightarrow> u32" where
  "header2 C tinfo = push_bit (PKT_HDR2_PAYLOAD_SIZE_SHIFT C) (num_bytes tinfo - 1)"

definition header3 :: "i2c_consts \<Rightarrow> i2c_trans_info \<Rightarrow> u32" where
  "header3 C tinfo =
     (let data = push_bit (PKT_HDR3_SLAVE_ADDR_SHIFT C) (address tinfo) in
      if flags tinfo AND I2C_IS_WRITE C = 0 then data OR PKT_HDR3_READ_MODE_MASK C
      else data)"

definition send_packet_headers ::
  "i2c_consts \<Rightarrow> 'h hardware \<Rightarrow> i2c_bus \<Rightarrow> i2c_trans_info \<Rightarrow> u32 \<Rightarrow> 'h sys \<Rightarrow> 'h sys" where
  "send_packet_headers C hw i2c_bus tinfo packet_id s =
     (let s1 = writel hw (header1 C i2c_bus packet_id) (Tx_fifo (control i2c_bus)) s;
          s2 = writel hw (header2 C tinfo) (Tx_fifo (control i2c_bus)) s1
      in writel hw (header3 C tinfo) (Tx_fifo (control i2c_bus)) s2)"

subsection \<open>The three polls\<close>

text \<open>
  Each poll is the source's \<^verbatim>\<open>while (timeout_us >= 0)\<close> loop, with the remaining budget
  as an argument; the wait functions start it at \<^verbatim>\<open>I2C_TIMEOUT_USEC\<close>.
\<close>

definition tx_fifo_empty_cnt :: "i2c_consts \<Rightarrow> u32 \<Rightarrow> u32" where
  "tx_fifo_empty_cnt C v = drop_bit (TX_FIFO_EMPTY_CNT_SHIFT C) (v AND TX_FIFO_EMPTY_CNT_MASK C)"

definition tx_fifo_full_cnt :: "i2c_consts \<Rightarrow> u32 \<Rightarrow> u32" where
  "tx_fifo_full_cnt C v = drop_bit (TX_FIFO_FULL_CNT_SHIFT C) (v AND TX_FIFO_FULL_CNT_MASK C)"

function tx_fifo_empty_loop ::
  "i2c_consts \<Rightarrow> 'h hardware \<Rightarrow> u32 \<Rightarrow> int \<Rightarrow> 'h sys \<Rightarrow> s32 \<times> 'h sys" where
  "tx_fifo_empty_loop C hw ctl timeout_us s =
     (if timeout_us \<ge> 0 then
        (case readl hw (Fifo_status ctl) s of
           (v, s1) \<Rightarrow>
             if tx_fifo_empty_cnt C v = I2C_FIFO_DEPTH C then (1, s1)
             else tx_fifo_empty_loop C hw ctl (timeout_us - 10) (udelay hw 10 s1))
      else (0, s))"
  by pat_completeness auto
termination
  by (relation "measure (\<lambda>(C, hw, ctl, t, s). nat (t + 10))") auto

definition wait_for_tx_fifo_empty ::
  "i2c_consts \<Rightarrow> 'h hardware \<Rightarrow> u32 \<Rightarrow> 'h sys \<Rightarrow> s32 \<times> 'h sys" where
  "wait_for_tx_fifo_empty C hw ctl s = tx_fifo_empty_loop C hw ctl (I2C_TIMEOUT_USEC C) s"

function rx_fifo_notempty_loop ::
  "i2c_consts \<Rightarrow> 'h hardware \<Rightarrow> u32 \<Rightarrow> int \<Rightarrow> 'h sys \<Rightarrow> s32 \<times> 'h sys" where
  "rx_fifo_notempty_loop C hw ctl timeout_us s =
     (if timeout_us \<ge> 0 then
        (case readl hw (Fifo_status ctl) s of
           (v, s1) \<Rightarrow>
             if tx_fifo_full_cnt C v \<noteq> 0 then (1, s1)
             else rx_fifo_notempty_loop C hw ctl (timeout_us - 10) (udelay hw 10 s1))
      else (0, s))"
  by pat_completeness auto
termination
  by (relation "measure (\<lambda>(C, hw, ctl, t, s). nat (t + 10))") auto

definition wait_for_rx_fifo_notempty ::
  "i2c_consts \<Rightarrow> 'h hardware \<Rightarrow> u32 \<Rightarrow> 'h sys \<Rightarrow> s32 \<times> 'h sys" where
  "wait_for_rx_fifo_notempty C hw ctl s =
     rx_fifo_notempty_loop C hw ctl (I2C_TIMEOUT_USEC C) s"

function transfer_complete_loop ::
  "i2c_consts \<Rightarrow> 'h hardware \<Rightarrow> u32 \<Rightarrow> int \<Rightarrow> 'h sys \<Rightarrow> s32 \<times> 'h sys" where
  "transfer_complete_loop C hw ctl timeout_us s =
     (if timeout_us \<ge> 0 then
        (case readl hw (Int_status ctl) s of
           (int_status, s1) \<Rightarrow>
             if int_status AND I2C_INT_NO_ACK_MASK C \<noteq> 0 then (- int_status, s1)
             else if int_status AND I2C_INT_ARBITRATION_LOST_MASK C \<noteq> 0 then (- int_status, s1)
             else if int_status AND I2C_INT_XFER_COMPLETE_MASK C \<noteq> 0 then (0, s1)
             else transfer_complete_loop C hw ctl (timeout_us - 10) (udelay hw 10 s1))
      else (- 1, s))"
  by pat_completeness auto
termination
  by (relation "measure (\<lambda>(C, hw, ctl, t, s). nat (t + 10))") auto

definition wait_for_transfer_complete ::
  "i2c_consts \<Rightarrow> 'h hardware \<Rightarrow> u32 \<Rightarrow> 'h sys \<Rightarrow> s32 \<times> 'h sys" where
  "wait_for_transfer_complete C hw ctl s =
     transfer_complete_loop C hw ctl (I2C_TIMEOUT_USEC C) s"

subsection \<open>send\_recv\_packets\<close>

text \<open>
  Modelled from the spec: the macro \<^verbatim>\<open>DIV_ROUND_UP\<close> is defined in a header that is not
  part of the sources. The specification gives the word count as \<open>ceil(len / 4)\<close>, so
  the macro is the exact ceiling of the quotient, cut to the 32 bits of \<^verbatim>\<open>u32 words\<close>.
\<close>

definition DIV_ROUND_UP :: "u32 \<Rightarrow> u32 \<Rightarrow> u32" where
  "DIV_ROUND_UP n d = of_nat ((unat n + unat d - 1) div unat d)"

text \<open>
  The \<^verbatim>\<open>while (words)\<close> loop. Its result is the value of \<^verbatim>\<open>error\<close> when the loop is left:
  \<open>0\<close> when it ran to the end, \<open>-1\<close> when a poll failed and the code jumps to \<^verbatim>\<open>exit\<close>.
\<close>

function word_loop ::
  "i2c_consts \<Rightarrow> 'h hardware \<Rightarrow> u32 \<Rightarrow> u32 \<Rightarrow> u8 \<Rightarrow> u32 \<Rightarrow> u32 \<Rightarrow> 'h sys \<Rightarrow> s32 \<times> 'h sys" where
  "word_loop C hw ctl is_write last_bytes words dptr s =
     (if words \<noteq> 0 then
        if is_write \<noteq> 0 then
          (let s1 = (if dptr AND 3 \<noteq> 0 then
                       writel hw (memcpy_to_local (ram s) dptr) (Tx_fifo ctl) s
                     else writel hw (load32 (ram s) dptr) (Tx_fifo ctl) s)
           in case wait_for_tx_fifo_empty C hw ctl s1 of
                (ok, s2) \<Rightarrow>
                  if ok = 0 then (- 1, s2)
                  else word_loop C hw ctl is_write last_bytes (words - 1) (dptr + 4) s2)
        else
          (case wait_for_rx_fifo_notempty C hw ctl s of
             (ok, s1) \<Rightarrow>
               if ok = 0 then (- 1, s1)
               else
                 (case readl hw (Rx_fifo ctl) s1 of
                    (local, s2) \<Rightarrow>
                      let m = (if words = 1 \<and> last_bytes \<noteq> 0 then
                                 memcpy_from_local (ram s2) dptr local (unat last_bytes)
                               else if dptr AND 3 \<noteq> 0 then
                                 memcpy_from_local (ram s2) dptr local 4
                               else store32 (ram s2) dptr local)
                      in word_loop C hw ctl is_write last_bytes (words - 1) (dptr + 4)
                           (s2\<lparr>ram := m\<rparr>)))
      else (0, s))"
  by pat_completeness auto
termination
  by (relation "measure (\<lambda>(C, hw, ctl, w, l, words, p, s). unat words)")
     (auto simp: unat_minus_one unat_gt_0 intro: diff_less)

definition send_recv_packets ::
  "i2c_consts \<Rightarrow> 'h hardware \<Rightarrow> i2c_bus \<Rightarrow> i2c_trans_info \<Rightarrow> 'h sys \<Rightarrow> s32 \<times> 'h sys" where
  "send_recv_packets C hw i2c_bus tinfo s =
     (let ctl = control i2c_bus;
          is_write = flags tinfo AND I2C_IS_WRITE C
      in case readl hw (Int_status ctl) s of
           (int_status, s1) \<Rightarrow>
             let s2 = writel hw int_status (Int_status ctl) s1;
                 s3 = send_packet_headers C hw i2c_bus tinfo 1 s2;
                 words = DIV_ROUND_UP (num_bytes tinfo) 4;
                 last_bytes = (ucast (num_bytes tinfo AND 3) :: u8);
                 dptr = buf tinfo
             in case word_loop C hw ctl is_write last_bytes words dptr s3 of
                  (error, s4) \<Rightarrow>
                    if error \<noteq> 0 then (error, i2c_reset_controller C hw i2c_bus s4)
                    else
                      (case wait_for_transfer_complete C hw ctl s4 of
                         (rc, s5) \<Rightarrow>
                           if rc \<noteq> 0 then (- 1, i2c_reset_controller C hw i2c_bus s5)
                           else (0, s5)))"

subsection \<open>The transaction facade\<close>

definition tegra_i2c_write_data ::
  "i2c_consts \<Rightarrow> 'h hardware \<Rightarrow> i2c_bus \<Rightarrow> u32 \<Rightarrow> u32 \<Rightarrow> u32 \<Rightarrow> 'h sys \<Rightarrow> s32 \<times> 'h sys" where
  "tegra_i2c_write_data C hw bus addr data len s =
     send_recv_packets C hw bus
       \<lparr>address = addr, buf = data, flags = I2C_IS_WRITE C, num_bytes = len,
        is_10bit_address = 0\<rparr> s"

definition tegra_i2c_read_data ::
  "i2c_consts \<Rightarrow> 'h hardware \<Rightarrow> i2c_bus \<Rightarrow> u32 \<Rightarrow> u32 \<Rightarrow> u32 \<Rightarrow> 'h sys \<Rightarrow> s32 \<times> 'h sys" where
  "tegra_i2c_read_data C hw bus addr data len s =
     send_recv_packets C hw bus
       \<lparr>address = addr OR 1, buf = data, flags = 0, num_bytes = len,
        is_10bit_address = 0\<rparr> s"

text \<open>
  \<^verbatim>\<open>tegra_i2c_get_bus\<close> returns a pointer into the table \<^verbatim>\<open>i2c_controllers\<close>, or NULL:
  here the index of the bus, or \<open>None\<close>. The source indexes the table with
  \<^verbatim>\<open>adap->hwadapnr\<close> without a check; the registered adapters have the numbers 0 to 3,
  and every statement below is about an index inside the table.
\<close>

definition tegra_i2c_get_bus :: "nat \<Rightarrow> 'h sys \<Rightarrow> nat option" where
  "tegra_i2c_get_bus hwadapnr s =
     (if inited (i2c_controllers s ! hwadapnr) = 0 then None else Some hwadapnr)"

definition tegra_i2c_set_bus_speed ::
  "i2c_consts \<Rightarrow> 'h hardware \<Rightarrow> nat \<Rightarrow> u32 \<Rightarrow> 'h sys \<Rightarrow> u32 \<times> 'h sys" where
  "tegra_i2c_set_bus_speed C hw hwadapnr spd s =
     (case tegra_i2c_get_bus hwadapnr s of
        None \<Rightarrow> (0, s)
      | Some b \<Rightarrow>
          let bus = (i2c_controllers s ! b)\<lparr>speed := spd\<rparr>;
              s1 = s\<lparr>i2c_controllers := (i2c_controllers s)[b := bus]\<rparr>
          in (0, i2c_init_controller C hw bus s1))"

text \<open>
  \<^verbatim>\<open>i2c_write_data\<close> and \<^verbatim>\<open>i2c_read_data\<close>: \<^verbatim>\<open>chip\<close> is a \<^verbatim>\<open>uchar\<close>, promoted before the
  shift; \<^verbatim>\<open>len\<close> is an \<^verbatim>\<open>int\<close> passed on as \<^verbatim>\<open>u32\<close>. The debug output is left out.
\<close>

definition i2c_write_data ::
  "i2c_consts \<Rightarrow> 'h hardware \<Rightarrow> i2c_bus \<Rightarrow> u8 \<Rightarrow> u32 \<Rightarrow> s32 \<Rightarrow> 'h sys \<Rightarrow> s32 \<times> 'h sys" where
  "i2c_write_data C hw bus chip buffer len s =
     tegra_i2c_write_data C hw bus (push_bit 1 (ucast chip)) buffer len s"

definition i2c_read_data ::
  "i2c_consts \<Rightarrow> 'h hardware \<Rightarrow> i2c_bus \<Rightarrow> u8 \<Rightarrow> u32 \<Rightarrow> s32 \<Rightarrow> 'h sys \<Rightarrow> s32 \<times> 'h sys" where
  "i2c_read_data C hw bus chip buffer len s =
     (case tegra_i2c_read_data C hw bus (push_bit 1 (ucast chip)) buffer len s of
        (rc, s1) \<Rightarrow> if rc \<noteq> 0 then (rc, s1) else (0, s1))"

text \<open>
  \<^verbatim>\<open>tegra_i2c_probe\<close>. The local \<^verbatim>\<open>uchar reg\<close> is an object in memory whose address is
  passed to \<^verbatim>\<open>i2c_write_data\<close>; \<open>reg_addr\<close> is that address.
\<close>

definition tegra_i2c_probe ::
  "i2c_consts \<Rightarrow> 'h hardware \<Rightarrow> nat \<Rightarrow> u8 \<Rightarrow> u32 \<Rightarrow> 'h sys \<Rightarrow> s32 \<times> 'h sys" where
  "tegra_i2c_probe C hw hwadapnr chip reg_addr s =
     (case tegra_i2c_get_bus hwadapnr s of
        None \<Rightarrow> (1, s)
      | Some b \<Rightarrow>
          let s1 = s\<lparr>ram := (ram s)(reg_addr := 0)\<rparr> in
          case i2c_write_data C hw (i2c_controllers s1 ! b) chip reg_addr 1 s1 of
            (rc, s2) \<Rightarrow> if rc \<noteq> 0 then (1, s2) else (0, s2))"

definition i2c_addr_ok :: "u32 \<Rightarrow> s32 \<Rightarrow> bool" where
  "i2c_addr_ok addr alen = (alen = 1 \<or> alen = 2)"

text \<open>
  The loop \<^verbatim>\<open>for (i = 0; i < alen; i++) data[alen - i - 1] = (addr + offset) >> (8 * i)\<close>
  on the local array at \<open>data\<close>.
\<close>

definition fill_addr :: "(u32 \<Rightarrow> u8) \<Rightarrow> u32 \<Rightarrow> s32 \<Rightarrow> u32 \<Rightarrow> (u32 \<Rightarrow> u8)" where
  "fill_addr m data alen v =
     fold (\<lambda>i m'. m'(data + alen - of_nat i - 1 := ucast (drop_bit (8 * i) v))) [0..<unat alen] m"

function tegra_i2c_read_loop ::
  "i2c_consts \<Rightarrow> 'h hardware \<Rightarrow> i2c_bus \<Rightarrow> u8 \<Rightarrow> u32 \<Rightarrow> s32 \<Rightarrow> u32 \<Rightarrow> s32 \<Rightarrow> u32 \<Rightarrow> u32 \<Rightarrow>
     'h sys \<Rightarrow> s32 \<times> 'h sys" where
  "tegra_i2c_read_loop C hw bus chip addr alen buffer len data offset s =
     (if offset < len then
        (case (if alen \<noteq> 0 then
                 i2c_write_data C hw bus chip data alen
                   (s\<lparr>ram := fill_addr (ram s) data alen (addr + offset)\<rparr>)
               else (0, s)) of
           (rc, s1) \<Rightarrow>
             if rc \<noteq> 0 then (1, s1)
             else
               (case i2c_read_data C hw bus chip (buffer + offset) 1 s1 of
                  (rc', s2) \<Rightarrow>
                    if rc' \<noteq> 0 then (1, s2)
                    else tegra_i2c_read_loop C hw bus chip addr alen buffer len data
                           (offset + 1) s2))
      else (0, s))"
  by pat_completeness auto
termination
  by (relation "measure (\<lambda>(C, hw, bus, chip, addr, alen, buffer, len, data, offset, s).
         unat len - unat offset)")
     (simp_all, unat_arith+)

definition tegra_i2c_read ::
  "i2c_consts \<Rightarrow> 'h hardware \<Rightarrow> nat \<Rightarrow> u8 \<Rightarrow> u32 \<Rightarrow> s32 \<Rightarrow> u32 \<Rightarrow> s32 \<Rightarrow> u32 \<Rightarrow>
     'h sys \<Rightarrow> s32 \<times> 'h sys" where
  "tegra_i2c_read C hw hwadapnr chip addr alen buffer len data s =
     (case tegra_i2c_get_bus hwadapnr s of
        None \<Rightarrow> (1, s)
      | Some b \<Rightarrow>
          if \<not> i2c_addr_ok addr alen then (1, s)
          else tegra_i2c_read_loop C hw (i2c_controllers s ! b) chip addr alen buffer len
                 data 0 s)"

function tegra_i2c_write_loop ::
  "i2c_consts \<Rightarrow> 'h hardware \<Rightarrow> i2c_bus \<Rightarrow> u8 \<Rightarrow> u32 \<Rightarrow> s32 \<Rightarrow> u32 \<Rightarrow> s32 \<Rightarrow> u32 \<Rightarrow> u32 \<Rightarrow>
     'h sys \<Rightarrow> s32 \<times> 'h sys" where
  "tegra_i2c_write_loop C hw bus chip addr alen buffer len data offset s =
     (if offset < len then
        (let m1 = fill_addr (ram s) data alen (addr + offset);
             m2 = m1(data + alen := m1 (buffer + offset))
         in case i2c_write_data C hw bus chip data (alen + 1) (s\<lparr>ram := m2\<rparr>) of
              (rc, s1) \<Rightarrow>
                if rc \<noteq> 0 then (1, s1)
                else tegra_i2c_write_loop C hw bus chip addr alen buffer len data
                       (offset + 1) s1)
      else (0, s))"
  by pat_completeness auto
termination
  by (relation "measure (\<lambda>(C, hw, bus, chip, addr, alen, buffer, len, data, offset, s).
         unat len - unat offset)")
     (simp_all, unat_arith+)

definition tegra_i2c_write ::
  "i2c_consts \<Rightarrow> 'h hardware \<Rightarrow> nat \<Rightarrow> u8 \<Rightarrow> u32 \<Rightarrow> s32 \<Rightarrow> u32 \<Rightarrow> s32 \<Rightarrow> u32 \<Rightarrow>
     'h sys \<Rightarrow> s32 \<times> 'h sys" where
  "tegra_i2c_write C hw hwadapnr chip addr alen buffer len data s =
     (case tegra_i2c_get_bus hwadapnr s of
        None \<Rightarrow> (1, s)
      | Some b \<Rightarrow>
          if \<not> i2c_addr_ok addr alen then (1, s)
          else tegra_i2c_write_loop C hw (i2c_controllers s ! b) chip addr alen buffer len
                 data 0 s)"

subsection \<open>Observing a trace\<close>

text \<open>
  The words written to the command FIFO of the control block \<open>ctl\<close>, and the words read
  from its receive FIFO, in the order of the trace.
\<close>

fun tx_word_of :: "u32 \<Rightarrow> action \<times> u32 \<Rightarrow> u32 list" where
  "tx_word_of ctl (Writel (Tx_fifo c) v, r) = (if c = ctl then [v] else [])"
| "tx_word_of ctl e = []"

fun rx_word_of :: "u32 \<Rightarrow> action \<times> u32 \<Rightarrow> u32 list" where
  "rx_word_of ctl (Readl (Rx_fifo c), r) = (if c = ctl then [r] else [])"
| "rx_word_of ctl e = []"

definition tx_words :: "u32 \<Rightarrow> (action \<times> u32) list \<Rightarrow> u32 list" where
  "tx_words ctl tr = concat (map (tx_word_of ctl) tr)"

definition rx_words :: "u32 \<Rightarrow> (action \<times> u32) list \<Rightarrow> u32 list" where
  "rx_words ctl tr = concat (map (rx_word_of ctl) tr)"

text \<open>The events a call appended to the trace, and the actions among them.\<close>

definition new_events :: "'h sys \<Rightarrow> 'h sys \<Rightarrow> (action \<times> u32) list" where
  "new_events s s' = drop (length (trace s)) (trace s')"

definition new_actions :: "'h sys \<Rightarrow> 'h sys \<Rightarrow> action list" where
  "new_actions s s' = map fst (new_events s s')"

text \<open>The events of a poll: a read of a status register, or the delay between two reads.\<close>

fun is_poll_event :: "u32 \<Rightarrow> action \<times> u32 \<Rightarrow> bool" where
  "is_poll_event ctl (Readl (Fifo_status c), r) = (c = ctl)"
| "is_poll_event ctl (Readl (Int_status c), r) = (c = ctl)"
| "is_poll_event ctl (Udelay n, r) = (n = 10)"
| "is_poll_event ctl e = False"

text \<open>
  The events of the recovery path of a bus, given the answers of the hardware: the
  peripheral reset, the configuration register written with the packet-mode value and,
  on a controller that is not a DVC, the slave configuration register read and written
  back with the NEWSL bit set. \<open>sl\<close> is the value read from that register.
\<close>

definition recovery_actions :: "i2c_consts \<Rightarrow> i2c_bus \<Rightarrow> u32 \<Rightarrow> action list" where
  "recovery_actions C bus sl =
     (if is_dvc bus \<noteq> 0 then
        [Reset_periph (periph_id bus) 1,
         Writel (Dvc_cnfg (regs bus))
           (I2C_CNFG_NEW_MASTER_FSM_MASK C OR I2C_CNFG_PACKET_MODE_MASK C)]
      else
        [Reset_periph (periph_id bus) 1,
         Writel (I2c_cnfg (regs bus))
           (I2C_CNFG_NEW_MASTER_FSM_MASK C OR I2C_CNFG_PACKET_MODE_MASK C),
         Readl (I2c_sl_cnfg (regs bus)),
         Writel (I2c_sl_cnfg (regs bus)) (sl OR I2C_SL_CNFG_NEWSL_MASK C)])"

subsection \<open>Concrete constants and test doubles\<close>

text \<open>
  An instance of the constants, in the layout of the Tegra packet interface: it is used
  to run the model on concrete inputs. No statement below depends on these values
  other than the ones that name \<open>sample_consts\<close>.
\<close>

definition sample_consts :: i2c_consts where
  "sample_consts =
     \<lparr>I2C_CNFG_NEW_MASTER_FSM_MASK = 0x800,
      I2C_CNFG_PACKET_MODE_MASK = 0x400,
      I2C_SL_CNFG_NEWSL_MASK = 0x4,
      DVC_CTRL_REG3_I2C_HW_SW_PROG_MASK = 0x4000000,
      PROTOCOL_TYPE_I2C = 1,
      PKT_HDR1_PROTOCOL_SHIFT = 4,
      PKT_HDR1_PKT_ID_SHIFT = 16,
      PKT_HDR1_CTLR_ID_SHIFT = 12,
      PKT_HDR2_PAYLOAD_SIZE_SHIFT = 0,
      PKT_HDR3_SLAVE_ADDR_SHIFT = 0,
      PKT_HDR3_READ_MODE_MASK = 0x80000,
      I2C_IS_WRITE = 1,
      I2C_TIMEOUT_USEC = 10000,
      I2C_FIFO_DEPTH = 8,
      TX_FIFO_EMPTY_CNT_MASK = 0xF0,
      TX_FIFO_EMPTY_CNT_SHIFT = 4,
      TX_FIFO_FULL_CNT_MASK = 0xF,
      TX_FIFO_FULL_CNT_SHIFT = 0,
      I2C_INT_NO_ACK_MASK = 0x8,
      I2C_INT_ARBITRATION_LOST_MASK = 0x4,
      I2C_INT_XFER_COMPLETE_MASK = 0x80,
      CLOCK_ID_PERIPH = 0,
      CLK_MULT_STD_FAST_MODE = 8\<rparr>"

definition sample_bus :: i2c_bus where
  "sample_bus =
     \<lparr>bus_id = 0, periph_id = 12, speed = 100000, pinmux_config = 0,
      control = 0x7000C050, regs = 0x7000C000, is_dvc = 0, is_scs = 0, inited = 1\<rparr>"

text \<open>
  A device without state that answers every read of the FIFO status register with
  \<open>fs\<close>, of the interrupt status register with \<open>ist\<close>, of the receive FIFO with \<open>rx\<close>,
  and everything else with 0.
\<close>

fun const_hw :: "u32 \<Rightarrow> u32 \<Rightarrow> u32 \<Rightarrow> unit hardware" where
  "const_hw fs ist rx (Readl (Fifo_status c)) d = (fs, d)"
| "const_hw fs ist rx (Readl (Int_status c)) d = (ist, d)"
| "const_hw fs ist rx (Readl (Rx_fifo c)) d = (rx, d)"
| "const_hw fs ist rx a d = (0, d)"

text \<open>A write of five bytes from an unaligned buffer and a read of five bytes.\<close>

definition sample_write :: i2c_trans_info where
  "sample_write =
     \<lparr>address = 0xA0, buf = 0x1001, flags = 1, num_bytes = 5, is_10bit_address = 0\<rparr>"

definition sample_read :: i2c_trans_info where
  "sample_read =
     \<lparr>address = 0xA1, buf = 0x2002, flags = 0, num_bytes = 5, is_10bit_address = 0\<rparr>"

text \<open>A memory whose byte at address \<open>a\<close> is the low byte of \<open>a\<close>.\<close>

definition sample_ram :: "u32 \<Rightarrow> u8" where
  "sample_ram a = ucast a"

definition init_sys :: "'h \<Rightarrow> (u32 \<Rightarrow> u8) \<Rightarrow> i2c_bus list \<Rightarrow> 'h sys" where
  "init_sys d m tab = \<lparr>dev = d, ram = m, trace = [], i2c_controllers = tab\<rparr>"

text \<open>
  A loopback device: it follows the packet protocol on the command FIFO (three header
  words, then the payload words of a write packet), queues the payload words and hands
  them out again, in order, on reads of the receive FIFO. Its transmit FIFO always
  reports empty, its receive count is nonzero while the queue holds a word, and every
  transfer completes at once.
\<close>

record loop_dev =
  hdr :: nat
  size_w :: u32
  left :: nat
  fifo :: "u32 list"

fun loopback :: "i2c_consts \<Rightarrow> loop_dev hardware" where
  "loopback C (Writel (Tx_fifo c) v) d =
     (if left d > 0 then (0, d\<lparr>left := left d - 1, fifo := fifo d @ [v]\<rparr>)
      else if hdr d = 0 then (0, d\<lparr>hdr := 1\<rparr>)
      else if hdr d = 1 then (0, d\<lparr>hdr := 2, size_w := v\<rparr>)
      else (0, d\<lparr>hdr := 0,
                 left := (if v AND PKT_HDR3_READ_MODE_MASK C \<noteq> 0 then 0
                          else (unat (drop_bit (PKT_HDR2_PAYLOAD_SIZE_SHIFT C) (size_w d)) + 4)
                                 div 4)\<rparr>))"
| "loopback C (Readl (Rx_fifo c)) d =
     (case fifo d of [] \<Rightarrow> (0, d) | w # ws \<Rightarrow> (w, d\<lparr>fifo := ws\<rparr>))"
| "loopback C (Readl (Fifo_status c)) d =
     (push_bit (TX_FIFO_EMPTY_CNT_SHIFT C) (I2C_FIFO_DEPTH C)
        OR push_bit (TX_FIFO_FULL_CNT_SHIFT C) (if fifo d = [] then 0 else 1), d)"
| "loopback C (Readl (Int_status c)) d = (I2C_INT_XFER_COMPLETE_MASK C, d)"
| "loopback C a d = (0, d)"

definition loop_idle :: loop_dev where
  "loop_idle = \<lparr>hdr = 0, size_w = 0, left = 0, fifo = []\<rparr>"

text \<open>
  A device that stalls: it counts the reads of the FIFO status register, answers the
  first \<open>k\<close> of them with \<open>fs\<close> and every later one with 0. Reads of the interrupt
  status register return \<open>ist\<close>, reads of the receive FIFO \<open>rx\<close>.
\<close>

fun stalling_hw :: "nat \<Rightarrow> u32 \<Rightarrow> u32 \<Rightarrow> u32 \<Rightarrow> nat hardware" where
  "stalling_hw k fs ist rx (Readl (Fifo_status c)) d = ((if d < k then fs else 0), Suc d)"
| "stalling_hw k fs ist rx (Readl (Int_status c)) d = (ist, d)"
| "stalling_hw k fs ist rx (Readl (Rx_fifo c)) d = (rx, d)"
| "stalling_hw k fs ist rx a d = (0, d)"

subsection \<open>Auxiliary notions for the statements\<close>

text \<open>
  The three polls of the source have one shape: read a status register, decide on the
  value, otherwise wait 10 microseconds and take 10 from the budget. \<open>poll_loop\<close> is
  that shape, with the decision as a function; the lemmas below show that each of the
  three loops is an instance of it.
\<close>

function poll_loop ::
  "'h hardware \<Rightarrow> reg \<Rightarrow> (u32 \<Rightarrow> s32 option) \<Rightarrow> s32 \<Rightarrow> int \<Rightarrow> 'h sys \<Rightarrow> s32 \<times> 'h sys" where
  "poll_loop hw r decide dflt timeout_us s =
     (if timeout_us \<ge> 0 then
        (case readl hw r s of
           (v, s1) \<Rightarrow>
             (case decide v of
                Some x \<Rightarrow> (x, s1)
              | None \<Rightarrow> poll_loop hw r decide dflt (timeout_us - 10) (udelay hw 10 s1)))
      else (dflt, s))"
  by pat_completeness auto
termination
  by (relation "measure (\<lambda>(hw, r, decide, dflt, t, s). nat (t + 10))") auto

text \<open>
  One round of a poll that does not decide, the state after \<open>k\<close> such rounds, and the
  value that the read of round \<open>k\<close> (counted from 0) returns.
\<close>

definition poll_step :: "'h hardware \<Rightarrow> reg \<Rightarrow> 'h sys \<Rightarrow> 'h sys" where
  "poll_step hw r s = udelay hw 10 (snd (readl hw r s))"

definition poll_state :: "'h hardware \<Rightarrow> reg \<Rightarrow> nat \<Rightarrow> 'h sys \<Rightarrow> 'h sys" where
  "poll_state hw r k s = (poll_step hw r ^^ k) s"

definition snapshot :: "'h hardware \<Rightarrow> reg \<Rightarrow> nat \<Rightarrow> 'h sys \<Rightarrow> u32" where
  "snapshot hw r k s = fst (readl hw r (poll_state hw r k s))"

text \<open>The decisions of the three polls.\<close>

definition tx_empty_decide :: "i2c_consts \<Rightarrow> u32 \<Rightarrow> s32 option" where
  "tx_empty_decide C v = (if tx_fifo_empty_cnt C v = I2C_FIFO_DEPTH C then Some 1 else None)"

definition rx_notempty_decide :: "i2c_consts \<Rightarrow> u32 \<Rightarrow> s32 option" where
  "rx_notempty_decide C v = (if tx_fifo_full_cnt C v \<noteq> 0 then Some 1 else None)"

definition xfer_decide :: "i2c_consts \<Rightarrow> u32 \<Rightarrow> s32 option" where
  "xfer_decide C v =
     (if v AND I2C_INT_NO_ACK_MASK C \<noteq> 0 then Some (- v)
      else if v AND I2C_INT_ARBITRATION_LOST_MASK C \<noteq> 0 then Some (- v)
      else if v AND I2C_INT_XFER_COMPLETE_MASK C \<noteq> 0 then Some 0
      else None)"

text \<open>
  The number of buffer bytes that a read of \<open>words\<close> words touches when the last word
  carries \<open>last_bytes\<close> bytes (0 standing for a full word).
\<close>

definition read_bytes :: "u8 \<Rightarrow> u32 \<Rightarrow> nat" where
  "read_bytes last_bytes words =
     (if last_bytes = 0 then 4 * unat words else 4 * (unat words - 1) + unat last_bytes)"

text \<open>The payload words of a write of \<open>n\<close> words from the buffer at \<open>p\<close> in the memory \<open>m\<close>.\<close>

definition payload_words :: "(u32 \<Rightarrow> u8) \<Rightarrow> u32 \<Rightarrow> nat \<Rightarrow> u32 list" where
  "payload_words m p n = map (\<lambda>i. word_of_bytes (load_bytes m (p + 4 * of_nat i) 4)) [0..<n]"

text \<open>
  The state in which \<^verbatim>\<open>send_recv_packets\<close> enters its word loop: the interrupt status
  has been read and written back, and the three header words have been sent.
\<close>

definition transfer_start :: "i2c_consts \<Rightarrow> 'h hardware \<Rightarrow> i2c_bus \<Rightarrow> i2c_trans_info \<Rightarrow> 'h sys \<Rightarrow> 'h sys" where
  "transfer_start C hw i2c_bus tinfo s =
     (case readl hw (Int_status (control i2c_bus)) s of
        (int_status, s1) \<Rightarrow>
          send_packet_headers C hw i2c_bus tinfo 1
            (writel hw int_status (Int_status (control i2c_bus)) s1))"

section \<open>Lemmas\<close>

text \<open>The loops are unfolded by hand, one round at a time.\<close>

declare tx_fifo_empty_loop.simps [simp del]
declare rx_fifo_notempty_loop.simps [simp del]
declare transfer_complete_loop.simps [simp del]
declare poll_loop.simps [simp del]
declare word_loop.simps [simp del]
declare tegra_i2c_read_loop.simps [simp del]
declare tegra_i2c_write_loop.simps [simp del]

subsection \<open>Bytes in memory\<close>

lemma length_bytes_of_word [simp]: "length (bytes_of_word w) = 4"
  by (simp add: bytes_of_word_def)

lemma length_load_bytes [simp]: "length (load_bytes m p n) = n"
  by (simp add: load_bytes_def)

lemma nth_load_bytes: "i < n \<Longrightarrow> load_bytes m p n ! i = m (p + of_nat i)"
  by (simp add: load_bytes_def)

lemma store_bytes_append:
  "store_bytes m p (xs @ ys) = store_bytes (store_bytes m p xs) (p + of_nat (length xs)) ys"
  by (induction xs arbitrary: m p) (simp_all add: add.assoc)





lemma list4: "length bs = 4 \<Longrightarrow> \<exists>a b c d. bs = [a, b, c, d]"
  by (cases bs; simp; rename_tac x xs; case_tac xs; simp; rename_tac y ys; case_tac ys; simp;
      rename_tac z zs; case_tac zs; simp)

lemma byte0: "(ucast (ucast (a::u8) OR push_bit 8 (w::u32) :: u32) :: u8) = a"
  by (rule bit_word_eqI) (auto simp: bit_simps)

lemma drop8: "drop_bit 8 (ucast (a::u8) OR push_bit 8 (w::u32) :: u32) = take_bit 24 w"
  by (rule bit_word_eqI) (auto simp: bit_simps dest: bit_imp_le_length)

lemma byte_take: "8 \<le> n \<Longrightarrow> (ucast (take_bit n (w :: u32)) :: u8) = ucast w"
  by (rule bit_word_eqI) (auto simp: bit_simps)

lemma drop_take: "drop_bit 8 (take_bit (n + 8) (w :: u32)) = take_bit n (drop_bit 8 w)"
  by (rule bit_word_eqI) (auto simp: bit_simps)

lemma bytes_of_word_of_bytes:
  assumes "length bs = 4"
  shows "bytes_of_word (word_of_bytes bs) = bs"
proof -
  from list4 [OF assms] obtain a b c d where bs: "bs = [a, b, c, d]" by blast
  have e: "[0..<4] = [0, 1, 2, 3]" by (simp add: upt_rec)
  let ?w3 = "ucast d OR push_bit 8 (0::u32)"
  let ?w2 = "ucast c OR push_bit 8 ?w3"
  let ?w1 = "ucast b OR push_bit 8 ?w2"
  let ?w0 = "ucast a OR push_bit 8 ?w1"
  have d1: "drop_bit 8 ?w0 = take_bit 24 ?w1" by (rule drop8)
  have d2: "drop_bit 16 ?w0 = take_bit 16 ?w2"
  proof -
    have "drop_bit 16 ?w0 = drop_bit 8 (drop_bit 8 ?w0)" by (simp add: drop_bit_drop_bit)
    also have "\<dots> = drop_bit 8 (take_bit (16 + 8) ?w1)" by (simp only: d1) simp
    also have "\<dots> = take_bit 16 (drop_bit 8 ?w1)" by (rule drop_take)
    also have "\<dots> = take_bit 16 (take_bit 24 ?w2)" by (simp only: drop8)
    also have "\<dots> = take_bit 16 ?w2" by simp
    finally show ?thesis .
  qed
  have d3: "drop_bit 24 ?w0 = take_bit 8 ?w3"
  proof -
    have "drop_bit 24 ?w0 = drop_bit 8 (drop_bit 16 ?w0)" by (simp add: drop_bit_drop_bit)
    also have "\<dots> = drop_bit 8 (take_bit (8 + 8) ?w2)" by (simp only: d2) simp
    also have "\<dots> = take_bit 8 (drop_bit 8 ?w2)" by (rule drop_take)
    also have "\<dots> = take_bit 8 (take_bit 24 ?w3)" by (simp only: drop8)
    also have "\<dots> = take_bit 8 ?w3" by simp
    finally show ?thesis .
  qed
  have "ucast ?w0 = a" by (rule byte0)
  moreover have "ucast (drop_bit 8 ?w0) = b" by (simp only: d1 byte_take [of 24] byte0) 
  moreover have "ucast (drop_bit 16 ?w0) = c" by (simp only: d2 byte_take [of 16] byte0)
  moreover have "ucast (drop_bit 24 ?w0) = d" by (simp only: d3 byte_take [of 8] byte0)
  ultimately show ?thesis
    unfolding bs bytes_of_word_def e by (simp del: push_bit_of_0)
qed


subsection \<open>Register accesses and the trace\<close>

lemma io_simps:
  "fst (io hw a s) = fst (hw a (dev s))"
  "trace (snd (io hw a s)) = trace s @ [(a, fst (hw a (dev s)))]"
  "ram (snd (io hw a s)) = ram s"
  "i2c_controllers (snd (io hw a s)) = i2c_controllers s"
  "dev (snd (io hw a s)) = snd (hw a (dev s))"
  by (simp_all add: io_def split: prod.splits)

lemma readl_D:
  assumes "readl hw r s = (v, s1)"
  shows "trace s1 = trace s @ [(Readl r, v)]" and "ram s1 = ram s"
    and "i2c_controllers s1 = i2c_controllers s"
  using assms io_simps [of hw "Readl r" s] by (auto simp: readl_def)

lemma writel_simps:
  "trace (writel hw v r s) = trace s @ [(Writel r v, fst (hw (Writel r v) (dev s)))]"
  "ram (writel hw v r s) = ram s"
  "i2c_controllers (writel hw v r s) = i2c_controllers s"
  by (simp_all add: writel_def io_simps)

lemma udelay_simps:
  "trace (udelay hw n s) = trace s @ [(Udelay n, fst (hw (Udelay n) (dev s)))]"
  "ram (udelay hw n s) = ram s"
  "i2c_controllers (udelay hw n s) = i2c_controllers s"
  by (simp_all add: udelay_def io_simps)

lemma reset_periph_simps:
  "trace (reset_periph hw p u s) = trace s @ [(Reset_periph p u, fst (hw (Reset_periph p u) (dev s)))]"
  "ram (reset_periph hw p u s) = ram s"
  "i2c_controllers (reset_periph hw p u s) = i2c_controllers s"
  by (simp_all add: reset_periph_def io_simps)

text \<open>The three loops of the source are instances of \<open>poll_loop\<close>.\<close>

lemma tx_fifo_empty_loop_poll:
  "tx_fifo_empty_loop C hw ctl t s = poll_loop hw (Fifo_status ctl) (tx_empty_decide C) 0 t s"
proof (induction C hw ctl t s rule: tx_fifo_empty_loop.induct)
  case (1 C hw ctl t s)
  note unf = tx_fifo_empty_loop.simps [of C hw ctl t s]
    poll_loop.simps [of hw "Fifo_status ctl" "tx_empty_decide C" 0 t s]
  show ?case
  proof (cases "0 \<le> t")
    case False
    then show ?thesis unfolding unf by simp
  next
    case True
    obtain v s1 where rd: "readl hw (Fifo_status ctl) s = (v, s1)" by force
    show ?thesis
    proof (cases "tx_fifo_empty_cnt C v = I2C_FIFO_DEPTH C")
      case c: True
      then have d: "tx_empty_decide C v = Some 1" by (simp add: tx_empty_decide_def)
      show ?thesis using True rd c d unfolding unf by simp
    next
      case c: False
      then have d: "tx_empty_decide C v = None" by (simp add: tx_empty_decide_def)
      show ?thesis
        using "1.IH" [OF True rd [symmetric] c] True rd c d unfolding unf by simp
    qed
  qed
qed

lemma rx_fifo_notempty_loop_poll:
  "rx_fifo_notempty_loop C hw ctl t s =
     poll_loop hw (Fifo_status ctl) (rx_notempty_decide C) 0 t s"
proof (induction C hw ctl t s rule: rx_fifo_notempty_loop.induct)
  case (1 C hw ctl t s)
  note unf = rx_fifo_notempty_loop.simps [of C hw ctl t s]
    poll_loop.simps [of hw "Fifo_status ctl" "rx_notempty_decide C" 0 t s]
  show ?case
  proof (cases "0 \<le> t")
    case False
    then show ?thesis unfolding unf by simp
  next
    case True
    obtain v s1 where rd: "readl hw (Fifo_status ctl) s = (v, s1)" by force
    show ?thesis
    proof (cases "tx_fifo_full_cnt C v \<noteq> 0")
      case c: True
      then have d: "rx_notempty_decide C v = Some 1" by (simp add: rx_notempty_decide_def)
      show ?thesis using True rd c d unfolding unf by simp
    next
      case c: False
      then have d: "rx_notempty_decide C v = None" by (simp add: rx_notempty_decide_def)
      show ?thesis
        using "1.IH" [OF True rd [symmetric] c] True rd c d unfolding unf by simp
    qed
  qed
qed

lemma transfer_complete_loop_poll:
  "transfer_complete_loop C hw ctl t s =
     poll_loop hw (Int_status ctl) (xfer_decide C) (- 1) t s"
proof (induction C hw ctl t s rule: transfer_complete_loop.induct)
  case (1 C hw ctl t s)
  note unf = transfer_complete_loop.simps [of C hw ctl t s]
    poll_loop.simps [of hw "Int_status ctl" "xfer_decide C" "- 1" t s]
  show ?case
  proof (cases "0 \<le> t")
    case False
    then show ?thesis unfolding unf by simp
  next
    case True
    obtain v s1 where rd: "readl hw (Int_status ctl) s = (v, s1)" by force
    consider (nack) "v AND I2C_INT_NO_ACK_MASK C \<noteq> 0"
      | (arb) "\<not> v AND I2C_INT_NO_ACK_MASK C \<noteq> 0"
          "v AND I2C_INT_ARBITRATION_LOST_MASK C \<noteq> 0"
      | (complete) "\<not> v AND I2C_INT_NO_ACK_MASK C \<noteq> 0"
          "\<not> v AND I2C_INT_ARBITRATION_LOST_MASK C \<noteq> 0"
          "v AND I2C_INT_XFER_COMPLETE_MASK C \<noteq> 0"
      | (none) "\<not> v AND I2C_INT_NO_ACK_MASK C \<noteq> 0"
          "\<not> v AND I2C_INT_ARBITRATION_LOST_MASK C \<noteq> 0"
          "\<not> v AND I2C_INT_XFER_COMPLETE_MASK C \<noteq> 0"
      by blast
    then show ?thesis
    proof cases
      case nack
      then have d: "xfer_decide C v = Some (- v)" by (simp add: xfer_decide_def)
      show ?thesis using True rd nack d unfolding unf by simp
    next
      case arb
      then have d: "xfer_decide C v = Some (- v)" by (simp add: xfer_decide_def)
      show ?thesis using True rd arb d unfolding unf by simp
    next
      case complete
      then have d: "xfer_decide C v = Some 0" by (simp add: xfer_decide_def)
      show ?thesis using True rd complete d unfolding unf by simp
    next
      case none
      then have d: "xfer_decide C v = None" by (simp add: xfer_decide_def)
      show ?thesis
        using "1.IH" [OF True rd [symmetric] none] True rd none d unfolding unf by simp
    qed
  qed
qed

text \<open>What a poll leaves behind: only reads of its register and delays.\<close>

lemma poll_loop_trace:
  "poll_loop hw r decide dflt t s = (x, s') \<Longrightarrow>
   \<exists>evs. trace s' = trace s @ evs \<and>
         (\<forall>e\<in>set evs. (\<exists>v. e = (Readl r, v)) \<or> (\<exists>v. e = (Udelay 10, v))) \<and>
         ram s' = ram s \<and> i2c_controllers s' = i2c_controllers s \<and>
         ((\<exists>v. decide v = Some x \<and> evs \<noteq> [] \<and> last evs = (Readl r, v)) \<or>
          (x = dflt \<and> (0 \<le> t \<longrightarrow> evs \<noteq> [] \<and> fst (last evs) = Udelay 10)))"
proof (induction hw r decide dflt t s rule: poll_loop.induct)
  case (1 hw r decide dflt t s)
  note unf = poll_loop.simps [of hw r decide dflt t s]
  show ?case
  proof (cases "0 \<le> t")
    case False
    with "1.prems" show ?thesis unfolding unf by simp
  next
    case True
    obtain v s1 where rd: "readl hw r s = (v, s1)" by force
    note rs = readl_D [OF rd]
    show ?thesis
    proof (cases "decide v")
      case (Some y)
      with True rd "1.prems" have "x = y" "s' = s1"
        unfolding unf by simp_all
      with rs Some show ?thesis by auto
    next
      case None
      with True rd "1.prems"
      have rec: "poll_loop hw r decide dflt (t - 10) (udelay hw 10 s1) = (x, s')"
        unfolding unf by simp
      from "1.IH" [OF True rd [symmetric] None rec]
      obtain evs where e: "trace s' = trace (udelay hw 10 s1) @ evs"
        "\<forall>e\<in>set evs. (\<exists>v. e = (Readl r, v)) \<or> (\<exists>v. e = (Udelay 10, v))"
        "ram s' = ram (udelay hw 10 s1)"
        "i2c_controllers s' = i2c_controllers (udelay hw 10 s1)"
        "(\<exists>v. decide v = Some x \<and> evs \<noteq> [] \<and> last evs = (Readl r, v)) \<or>
         (x = dflt \<and> (0 \<le> t - 10 \<longrightarrow> evs \<noteq> [] \<and> fst (last evs) = Udelay 10))"
        by blast
      let ?d = "(Udelay 10, fst (hw (Udelay 10) (dev s1)))"
      let ?evs = "(Readl r, v) # ?d # evs"
      have 1: "trace s' = trace s @ ?evs"
        using e(1) rs(1) by (simp add: udelay_simps)
      have 2: "\<forall>e\<in>set ?evs. (\<exists>v. e = (Readl r, v)) \<or> (\<exists>v. e = (Udelay 10, v))"
        using e(2) by simp
      have 3: "(\<exists>v. decide v = Some x \<and> ?evs \<noteq> [] \<and> last ?evs = (Readl r, v)) \<or>
               (x = dflt \<and> ?evs \<noteq> [] \<and> fst (last ?evs) = Udelay 10)"
      proof (cases "\<exists>v. decide v = Some x \<and> evs \<noteq> [] \<and> last evs = (Readl r, v)")
        case True
        then show ?thesis by auto
      next
        case False
        with e(5) have d: "x = dflt" "0 \<le> t - 10 \<longrightarrow> evs \<noteq> [] \<and> fst (last evs) = Udelay 10"
          by blast+
        have "fst (last ?evs) = Udelay 10"
        proof (cases "0 \<le> t - 10")
          case True
          with d(2) show ?thesis by simp
        next
          case False
          with rec have "s' = udelay hw 10 s1"
            by (simp add: poll_loop.simps [of hw r decide dflt "t - 10" "udelay hw 10 s1"])
          with e(1) have "evs = []" by simp
          then show ?thesis by simp
        qed
        with d(1) show ?thesis by simp
      qed
      have 4: "ram s' = ram s" "i2c_controllers s' = i2c_controllers s"
        using e(3,4) rs(2,3) by (simp_all add: udelay_simps)
      have 5: "(\<exists>v. decide v = Some x \<and> ?evs \<noteq> [] \<and> last ?evs = (Readl r, v)) \<or>
               (x = dflt \<and> (0 \<le> t \<longrightarrow> ?evs \<noteq> [] \<and> fst (last ?evs) = Udelay 10))"
        using 3 by blast
      from 1 2 4 5 show ?thesis by blast
    qed
  qed
qed

text \<open>A poll in terms of the values its reads return.\<close>

lemma poll_state_Suc: "poll_state hw r (Suc k) s = poll_state hw r k (poll_step hw r s)"
  by (simp add: poll_state_def funpow_swap1)

lemma snapshot_Suc: "snapshot hw r (Suc k) s = snapshot hw r k (poll_step hw r s)"
  by (simp add: snapshot_def poll_state_Suc)

lemma poll_loop_hit:
  "10 * int k \<le> t \<Longrightarrow> \<forall>j<k. decide (snapshot hw r j s) = None \<Longrightarrow>
   decide (snapshot hw r k s) = Some x \<Longrightarrow>
   poll_loop hw r decide dflt t s = (x, snd (readl hw r (poll_state hw r k s)))"
proof (induction k arbitrary: t s)
  case 0
  obtain v s1 where rd: "readl hw r s = (v, s1)" by force
  with 0 show ?case
    by (simp add: poll_loop.simps [of hw r decide dflt t s] snapshot_def poll_state_def)
next
  case (Suc k)
  obtain v s1 where rd: "readl hw r s = (v, s1)" by force
  from Suc.prems(2) have "decide (snapshot hw r 0 s) = None" by blast
  with rd have none: "decide v = None" by (simp add: snapshot_def poll_state_def)
  have step: "poll_step hw r s = udelay hw 10 s1" using rd by (simp add: poll_step_def)
  have "poll_loop hw r decide dflt (t - 10) (poll_step hw r s) =
          (x, snd (readl hw r (poll_state hw r k (poll_step hw r s))))"
  proof (rule Suc.IH)
    show "10 * int k \<le> t - 10" using Suc.prems(1) by simp
    show "\<forall>j<k. decide (snapshot hw r j (poll_step hw r s)) = None"
      using Suc.prems(2) by (auto simp: snapshot_Suc [symmetric])
    show "decide (snapshot hw r k (poll_step hw r s)) = Some x"
      using Suc.prems(3) by (simp add: snapshot_Suc)
  qed
  moreover have "0 \<le> t" using Suc.prems(1) by simp
  ultimately show ?case
    using rd none step
    by (simp add: poll_loop.simps [of hw r decide dflt t s] poll_state_Suc)
qed

lemma poll_loop_miss:
  "\<forall>k. 10 * int k \<le> t \<longrightarrow> decide (snapshot hw r k s) = None \<Longrightarrow>
   poll_loop hw r decide dflt t s = (dflt, poll_state hw r (nat ((t + 10) div 10)) s)"
proof (induction hw r decide dflt t s rule: poll_loop.induct)
  case (1 hw r decide dflt t s)
  show ?case
  proof (cases "0 \<le> t")
    case False
    then have "nat ((t + 10) div 10) = 0" by simp
    with False show ?thesis
      by (simp add: poll_loop.simps [of hw r decide dflt t s] poll_state_def)
  next
    case True
    obtain v s1 where rd: "readl hw r s = (v, s1)" by force
    from "1.prems" True have "decide (snapshot hw r 0 s) = None" by simp
    with rd have none: "decide v = None" by (simp add: snapshot_def poll_state_def)
    have step: "poll_step hw r s = udelay hw 10 s1" using rd by (simp add: poll_step_def)
    have "\<forall>k. 10 * int k \<le> t - 10 \<longrightarrow> decide (snapshot hw r k (udelay hw 10 s1)) = None"
    proof (intro allI impI)
      fix k assume "10 * int k \<le> t - 10"
      then have "10 * int (Suc k) \<le> t" by simp
      with "1.prems" have "decide (snapshot hw r (Suc k) s) = None" by blast
      then show "decide (snapshot hw r k (udelay hw 10 s1)) = None"
        by (simp add: snapshot_Suc step)
    qed
    from "1.IH" [OF True rd [symmetric] none this]
    have "poll_loop hw r decide dflt (t - 10) (udelay hw 10 s1) =
            (dflt, poll_state hw r (nat ((t - 10 + 10) div 10)) (udelay hw 10 s1))" .
    moreover have "nat ((t + 10) div 10) = Suc (nat ((t - 10 + 10) div 10))"
      using True by (simp add: Suc_nat_eq_nat_zadd1 pos_imp_zdiv_nonneg_iff)
    ultimately show ?thesis
      using True rd none step
      by (simp add: poll_loop.simps [of hw r decide dflt t s] poll_state_Suc)
  qed
qed

subsection \<open>The word loop\<close>

lemma tx_words_append [simp]: "tx_words ctl (xs @ ys) = tx_words ctl xs @ tx_words ctl ys"
  by (simp add: tx_words_def)

lemma rx_words_append [simp]: "rx_words ctl (xs @ ys) = rx_words ctl xs @ rx_words ctl ys"
  by (simp add: rx_words_def)

lemma tx_words_Nil [simp]: "tx_words ctl [] = []"
  by (simp add: tx_words_def)

lemma rx_words_Nil [simp]: "rx_words ctl [] = []"
  by (simp add: rx_words_def)

lemma tx_words_Cons: "tx_words ctl (e # es) = tx_word_of ctl e @ tx_words ctl es"
  by (simp add: tx_words_def)

lemma rx_words_Cons: "rx_words ctl (e # es) = rx_word_of ctl e @ rx_words ctl es"
  by (simp add: rx_words_def)

lemma poll_events_quiet:
  assumes "\<forall>e\<in>set evs. (\<exists>v. e = (Readl r, v)) \<or> (\<exists>v. e = (Udelay 10, v))"
    and "r = Fifo_status c \<or> r = Int_status c"
  shows "tx_words ctl evs = []" and "rx_words ctl evs = []"
  using assms by (induction evs) (auto simp: tx_words_Cons rx_words_Cons)

lemma wait_for_tx_fifo_empty_trace:
  assumes "wait_for_tx_fifo_empty C hw ctl s = (ok, s')"
  shows "\<exists>evs. trace s' = trace s @ evs \<and> tx_words c evs = [] \<and> rx_words c evs = [] \<and>
           ram s' = ram s \<and> i2c_controllers s' = i2c_controllers s \<and>
           (ok = 0 \<and> 0 \<le> I2C_TIMEOUT_USEC C \<longrightarrow> evs \<noteq> [] \<and> fst (last evs) = Udelay 10)"
proof -
  from assms have "poll_loop hw (Fifo_status ctl) (tx_empty_decide C) 0 (I2C_TIMEOUT_USEC C) s = (ok, s')"
    by (simp add: wait_for_tx_fifo_empty_def tx_fifo_empty_loop_poll)
  from poll_loop_trace [OF this] obtain evs where e:
    "trace s' = trace s @ evs"
    "\<forall>e\<in>set evs. (\<exists>v. e = (Readl (Fifo_status ctl), v)) \<or> (\<exists>v. e = (Udelay 10, v))"
    "ram s' = ram s" "i2c_controllers s' = i2c_controllers s"
    "(\<exists>v. tx_empty_decide C v = Some ok \<and> evs \<noteq> [] \<and> last evs = (Readl (Fifo_status ctl), v)) \<or>
     (ok = 0 \<and> (0 \<le> I2C_TIMEOUT_USEC C \<longrightarrow> evs \<noteq> [] \<and> fst (last evs) = Udelay 10))"
    by blast
  have "ok = 0 \<Longrightarrow> \<forall>v. tx_empty_decide C v \<noteq> Some ok"
    by (simp add: tx_empty_decide_def)
  with e poll_events_quiet [OF e(2), of ctl c] show ?thesis by blast
qed

lemma wait_for_rx_fifo_notempty_trace:
  assumes "wait_for_rx_fifo_notempty C hw ctl s = (ok, s')"
  shows "\<exists>evs. trace s' = trace s @ evs \<and> tx_words c evs = [] \<and> rx_words c evs = [] \<and>
           ram s' = ram s \<and> i2c_controllers s' = i2c_controllers s \<and>
           (ok = 0 \<and> 0 \<le> I2C_TIMEOUT_USEC C \<longrightarrow> evs \<noteq> [] \<and> fst (last evs) = Udelay 10)"
proof -
  from assms have "poll_loop hw (Fifo_status ctl) (rx_notempty_decide C) 0 (I2C_TIMEOUT_USEC C) s = (ok, s')"
    by (simp add: wait_for_rx_fifo_notempty_def rx_fifo_notempty_loop_poll)
  from poll_loop_trace [OF this] obtain evs where e:
    "trace s' = trace s @ evs"
    "\<forall>e\<in>set evs. (\<exists>v. e = (Readl (Fifo_status ctl), v)) \<or> (\<exists>v. e = (Udelay 10, v))"
    "ram s' = ram s" "i2c_controllers s' = i2c_controllers s"
    "(\<exists>v. rx_notempty_decide C v = Some ok \<and> evs \<noteq> [] \<and> last evs = (Readl (Fifo_status ctl), v)) \<or>
     (ok = 0 \<and> (0 \<le> I2C_TIMEOUT_USEC C \<longrightarrow> evs \<noteq> [] \<and> fst (last evs) = Udelay 10))"
    by blast
  have "ok = 0 \<Longrightarrow> \<forall>v. rx_notempty_decide C v \<noteq> Some ok"
    by (simp add: rx_notempty_decide_def)
  with e poll_events_quiet [OF e(2), of ctl c] show ?thesis by blast
qed

lemma payload_words_Suc:
  "payload_words m p (Suc n) = word_of_bytes (load_bytes m p 4) # payload_words m (p + 4) n"
proof -
  have "[0..<Suc n] = 0 # map Suc [0..<n]"
    by (simp add: upt_conv_Cons map_Suc_upt del: upt_Suc)
  then show ?thesis
    by (simp add: payload_words_def comp_def algebra_simps del: upt_Suc)
qed

lemma payload_words_0 [simp]: "payload_words m p 0 = []"
  by (simp add: payload_words_def)

lemma unat_pred_word: "(w :: u32) \<noteq> 0 \<Longrightarrow> unat (w - 1) = unat w - 1"
  by (simp add: unat_minus_one)

lemma word_loop_write:
  "word_loop C hw ctl w lb words dptr s = (r, s') \<Longrightarrow> w \<noteq> 0 \<Longrightarrow>
   ram s' = ram s \<and> i2c_controllers s' = i2c_controllers s \<and> (r = 0 \<or> r = - 1) \<and>
   (\<exists>evs n. trace s' = trace s @ evs \<and> rx_words ctl evs = [] \<and> n \<le> unat words \<and>
       (r = 0 \<longrightarrow> n = unat words) \<and> (words \<noteq> 0 \<longrightarrow> n \<noteq> 0) \<and>
       tx_words ctl evs = payload_words (ram s) dptr n \<and>
       (r \<noteq> 0 \<and> 0 \<le> I2C_TIMEOUT_USEC C \<longrightarrow> evs \<noteq> [] \<and> fst (last evs) = Udelay 10))"
proof (induction "unat words" arbitrary: words dptr s)
  case 0
  then have "words = 0" by (simp add: unat_eq_0)
  with "0.prems" have "word_loop C hw ctl w lb 0 dptr s = (r, s')" by simp
  then have "r = 0" "s' = s"
    by (simp_all add: word_loop.simps [of C hw ctl w lb 0 dptr s])
  then show ?case using \<open>words = 0\<close> by simp
next
  case (Suc k)
  then have nz: "words \<noteq> 0" by auto
  let ?w0 = "word_of_bytes (load_bytes (ram s) dptr 4)"
  let ?s1 = "writel hw ?w0 (Tx_fifo ctl) s"
  let ?e1 = "(Writel (Tx_fifo ctl) ?w0, fst (hw (Writel (Tx_fifo ctl) ?w0) (dev s)))"
  obtain ok s2 where wt: "wait_for_tx_fifo_empty C hw ctl ?s1 = (ok, s2)" by force
  from wait_for_tx_fifo_empty_trace [OF wt, of ctl] obtain pevs where p:
    "trace s2 = trace ?s1 @ pevs" "tx_words ctl pevs = []" "rx_words ctl pevs = []"
    "ram s2 = ram ?s1" "i2c_controllers s2 = i2c_controllers ?s1"
    "ok = 0 \<and> 0 \<le> I2C_TIMEOUT_USEC C \<longrightarrow> pevs \<noteq> [] \<and> fst (last pevs) = Udelay 10"
    by blast
  have t2: "trace s2 = trace s @ ?e1 # pevs" using p(1) by (simp add: writel_simps)
  have m2: "ram s2 = ram s" "i2c_controllers s2 = i2c_controllers s"
    using p(4,5) by (simp_all add: writel_simps)
  have unf: "word_loop C hw ctl w lb words dptr s =
      (if ok = 0 then (- 1, s2)
       else word_loop C hw ctl w lb (words - 1) (dptr + 4) s2)"
    using nz \<open>w \<noteq> 0\<close> wt
    by (simp add: word_loop.simps [of C hw ctl w lb words dptr s] memcpy_to_local_def load32_def)
  show ?case
  proof (cases "ok = 0")
    case True
    with unf Suc.prems have r: "r = - 1" "s' = s2" by simp_all
    have "1 \<le> unat words" using nz by (simp add: unat_gt_0 Suc_leI)
    moreover have "tx_words ctl (?e1 # pevs) = payload_words (ram s) dptr 1"
      using p(2) by (simp add: tx_words_Cons payload_words_Suc)
    moreover have "rx_words ctl (?e1 # pevs) = []"
      using p(3) by (simp add: rx_words_Cons)
    moreover have "0 \<le> I2C_TIMEOUT_USEC C \<longrightarrow> fst (last (?e1 # pevs)) = Udelay 10"
      using p(6) True by simp
    ultimately show ?thesis
      using r t2 m2 by (intro conjI exI [of _ "?e1 # pevs"] exI [of _ 1]) simp_all
  next
    case False
    with unf Suc.prems have rec: "word_loop C hw ctl w lb (words - 1) (dptr + 4) s2 = (r, s')"
      by simp
    have k: "k = unat (words - 1)" using Suc.hyps(2) nz by (simp add: unat_pred_word)
    from Suc.hyps(1) [OF k rec \<open>w \<noteq> 0\<close>] obtain evs n where ih:
      "ram s' = ram s2" "i2c_controllers s' = i2c_controllers s2" "r = 0 \<or> r = - 1"
      "trace s' = trace s2 @ evs" "rx_words ctl evs = []" "n \<le> unat (words - 1)"
      "r = 0 \<longrightarrow> n = unat (words - 1)" "tx_words ctl evs = payload_words (ram s2) (dptr + 4) n"
      "r \<noteq> 0 \<and> 0 \<le> I2C_TIMEOUT_USEC C \<longrightarrow> evs \<noteq> [] \<and> fst (last evs) = Udelay 10"
      by blast
    let ?evs = "?e1 # pevs @ evs"
    have 1: "trace s' = trace s @ ?evs" using ih(4) t2 by simp
    have 2: "rx_words ctl ?evs = []" using ih(5) p(3) by (simp add: rx_words_Cons)
    have 3: "Suc n \<le> unat words" "r = 0 \<longrightarrow> Suc n = unat words"
      using ih(6,7) k Suc.hyps(2) by simp_all
    have 4: "tx_words ctl ?evs = payload_words (ram s) dptr (Suc n)"
      using ih(8) p(2) m2 by (simp add: tx_words_Cons payload_words_Suc)
    have 5: "r \<noteq> 0 \<and> 0 \<le> I2C_TIMEOUT_USEC C \<longrightarrow> ?evs \<noteq> [] \<and> fst (last ?evs) = Udelay 10"
      using ih(9) by simp
    show ?thesis
      using 1 2 3 4 5 ih(1,2,3) m2
      by (intro conjI exI [of _ ?evs] exI [of _ "Suc n"]) simp_all
  qed
qed

lemma read_bytes_step:
  "words \<noteq> 0 \<Longrightarrow> \<not> (words = 1 \<and> lb \<noteq> 0) \<Longrightarrow>
     read_bytes lb words = 4 + read_bytes lb (words - 1) \<or> (words = 1 \<and> lb = 0)"
proof -
  assume nz: "words \<noteq> 0" and a: "\<not> (words = 1 \<and> lb \<noteq> 0)"
  have u: "unat (words - 1) = unat words - 1" "0 < unat words"
    using nz by (simp_all add: unat_minus_one unat_gt_0)
  show ?thesis
  proof (cases "lb = 0")
    case True
    with u show ?thesis by (simp add: read_bytes_def, arith)
  next
    case False
    with a have "words \<noteq> 1" by simp
    then have "unat words \<noteq> 1" by (metis unat_1 word_unat_eq_iff)
    with u False show ?thesis by (simp add: read_bytes_def)
  qed
qed

lemma word_loop_read:
  "word_loop C hw ctl 0 lb words dptr s = (r, s') \<Longrightarrow>
   i2c_controllers s' = i2c_controllers s \<and> (r = 0 \<or> r = - 1) \<and>
   (\<exists>evs. trace s' = trace s @ evs \<and> tx_words ctl evs = [] \<and>
       length (rx_words ctl evs) \<le> unat words \<and>
       (r = 0 \<longrightarrow> length (rx_words ctl evs) = unat words) \<and>
       ram s' = store_bytes (ram s) dptr
                  (take (read_bytes lb words) (concat (map bytes_of_word (rx_words ctl evs)))) \<and>
       (r \<noteq> 0 \<and> 0 \<le> I2C_TIMEOUT_USEC C \<longrightarrow> evs \<noteq> [] \<and> fst (last evs) = Udelay 10))"
proof (induction "unat words" arbitrary: words dptr s)
  case 0
  then have "words = 0" by (simp add: unat_eq_0)
  with "0.prems" have "word_loop C hw ctl 0 lb 0 dptr s = (r, s')" by simp
  then have "r = 0" "s' = s"
    by (simp_all add: word_loop.simps [of C hw ctl 0 lb 0 dptr s])
  then show ?case using \<open>words = 0\<close> by simp
next
  case (Suc k)
  then have nz: "words \<noteq> 0" by auto
  obtain ok s1 where wt: "wait_for_rx_fifo_notempty C hw ctl s = (ok, s1)" by force
  from wait_for_rx_fifo_notempty_trace [OF wt, of ctl] obtain pevs where p:
    "trace s1 = trace s @ pevs" "tx_words ctl pevs = []" "rx_words ctl pevs = []"
    "ram s1 = ram s" "i2c_controllers s1 = i2c_controllers s"
    "ok = 0 \<and> 0 \<le> I2C_TIMEOUT_USEC C \<longrightarrow> pevs \<noteq> [] \<and> fst (last pevs) = Udelay 10"
    by blast
  show ?case
  proof (cases "ok = 0")
    case True
    with Suc.prems nz wt have r: "r = - 1" "s' = s1"
      by (simp_all add: word_loop.simps [of C hw ctl 0 lb words dptr s])
    show ?thesis
      using r p True by (intro conjI exI [of _ pevs]) simp_all
  next
    case False
    obtain local s2 where rd: "readl hw (Rx_fifo ctl) s1 = (local, s2)" by force
    note rs = readl_D [OF rd]
    let ?n = "if words = 1 \<and> lb \<noteq> 0 then unat lb else 4"
    let ?m = "store_bytes (ram s) dptr (take ?n (bytes_of_word local))"
    let ?s3 = "s2\<lparr>ram := ?m\<rparr>"
    have unf: "word_loop C hw ctl 0 lb words dptr s =
        word_loop C hw ctl 0 lb (words - 1) (dptr + 4) ?s3"
      using nz wt False rd rs(2) p(4)
      by (simp add: word_loop.simps [of C hw ctl 0 lb words dptr s] memcpy_from_local_def
          store32_def)
    with Suc.prems have rec: "word_loop C hw ctl 0 lb (words - 1) (dptr + 4) ?s3 = (r, s')"
      by simp
    have k: "k = unat (words - 1)" using Suc.hyps(2) nz by (simp add: unat_pred_word)
    from Suc.hyps(1) [OF k rec] obtain evs where ih:
      "i2c_controllers s' = i2c_controllers ?s3" "r = 0 \<or> r = - 1"
      "trace s' = trace ?s3 @ evs" "tx_words ctl evs = []"
      "length (rx_words ctl evs) \<le> unat (words - 1)"
      "r = 0 \<longrightarrow> length (rx_words ctl evs) = unat (words - 1)"
      "ram s' = store_bytes (ram ?s3) (dptr + 4)
                  (take (read_bytes lb (words - 1)) (concat (map bytes_of_word (rx_words ctl evs))))"
      "r \<noteq> 0 \<and> 0 \<le> I2C_TIMEOUT_USEC C \<longrightarrow> evs \<noteq> [] \<and> fst (last evs) = Udelay 10"
      by blast
    let ?e = "(Readl (Rx_fifo ctl), local)"
    let ?evs = "pevs @ ?e # evs"
    have 1: "trace s' = trace s @ ?evs" using ih(3) rs(1) p(1) by simp
    have 2: "tx_words ctl ?evs = []" using ih(4) p(2) by (simp add: tx_words_Cons)
    have rx: "rx_words ctl ?evs = local # rx_words ctl evs"
      using p(3) by (simp add: rx_words_Cons)
    have 3: "length (rx_words ctl ?evs) \<le> unat words"
      "r = 0 \<longrightarrow> length (rx_words ctl ?evs) = unat words"
      using ih(5,6) k Suc.hyps(2) rx by simp_all
    have 4: "ram s' = store_bytes (ram s) dptr
               (take (read_bytes lb words) (concat (map bytes_of_word (rx_words ctl ?evs))))"
    proof (cases "words = 1")
      case True
      then have "unat (words - 1) = 0" by simp
      with ih(5) have e: "rx_words ctl evs = []" by simp
      have "read_bytes lb words = ?n" using True by (simp add: read_bytes_def)
      with ih(7) e rx show ?thesis by simp
    next
      case False
      with read_bytes_step [OF nz, of lb]
      have rb: "read_bytes lb words = 4 + read_bytes lb (words - 1)" by auto
      have "store_bytes (ram s) dptr
               (take (read_bytes lb words) (concat (map bytes_of_word (rx_words ctl ?evs)))) =
            store_bytes (ram s) dptr (bytes_of_word local @
               take (read_bytes lb (words - 1)) (concat (map bytes_of_word (rx_words ctl evs))))"
        unfolding rx rb by simp
      also have "\<dots> = store_bytes (store_bytes (ram s) dptr (bytes_of_word local)) (dptr + 4)
               (take (read_bytes lb (words - 1)) (concat (map bytes_of_word (rx_words ctl evs))))"
        by (simp add: store_bytes_append)
      also have "\<dots> = ram s'" using ih(7) False by simp
      finally show ?thesis by simp
    qed
    have 5: "r \<noteq> 0 \<and> 0 \<le> I2C_TIMEOUT_USEC C \<longrightarrow> ?evs \<noteq> [] \<and> fst (last ?evs) = Udelay 10"
      using ih(8) by simp
    have 6: "i2c_controllers s' = i2c_controllers s" using ih(1) rs(3) p(5) by simp
    show ?thesis
      using 1 2 3 4 5 6 ih(2) by (intro conjI exI [of _ ?evs]) 
  qed
qed

subsection \<open>Word counts\<close>

lemma unat_DIV_ROUND_UP_4: "unat (DIV_ROUND_UP n 4) = (unat n + 3) div 4"
proof -
  have "unat n < 2 ^ 32" using unsigned_less [of n] by simp
  then have "(unat n + 3) div 4 < 2 ^ 32" by simp
  then show ?thesis
    by (simp add: DIV_ROUND_UP_def unat_of_nat)
qed

lemma and_3_unat: "unat ((L :: u32) AND 3) = unat L mod 4"
proof -
  have "L AND 3 = take_bit 2 L" by (simp add: take_bit_eq_mask mask_eq_exp_minus_1)
  then show ?thesis by (simp add: unsigned_take_bit_eq take_bit_eq_mod unat_mod)
qed

lemma last_bytes_unat: "unat (ucast ((L :: u32) AND 3) :: u8) = unat L mod 4"
proof -
  have "unat (L AND 3) < 2 ^ 8" using and_3_unat [of L] by simp
  then have "unat (ucast (L AND 3) :: u8) = unat (L AND 3)"
    by (simp add: unsigned_ucast_eq take_bit_nat_eq_self)
  then show ?thesis by (simp add: and_3_unat)
qed

lemma last_bytes_0: "(ucast ((L :: u32) AND 3) :: u8) = 0 \<longleftrightarrow> unat L mod 4 = 0"
  using last_bytes_unat [of L] by (simp add: unat_eq_0 [symmetric] del: unat_eq_0)

lemma read_bytes_total:
  "read_bytes (ucast ((L :: u32) AND 3)) (DIV_ROUND_UP L 4) = unat L"
proof (cases "unat L mod 4 = 0")
  case True
  then have "4 * ((unat L + 3) div 4) = unat L" by arith
  with True show ?thesis
    by (simp add: read_bytes_def last_bytes_0 unat_DIV_ROUND_UP_4)
next
  case False
  then have "4 * ((unat L + 3) div 4 - 1) + unat L mod 4 = unat L" by arith
  with False show ?thesis
    by (simp add: read_bytes_def last_bytes_0 last_bytes_unat unat_DIV_ROUND_UP_4)
qed

subsection \<open>Headers, recovery and the completion poll\<close>

lemma send_packet_headers_trace:
  "\<exists>a b c. trace (send_packet_headers C hw bus tinfo pid s) =
      trace s @ [(Writel (Tx_fifo (control bus)) (header1 C bus pid), a),
                 (Writel (Tx_fifo (control bus)) (header2 C tinfo), b),
                 (Writel (Tx_fifo (control bus)) (header3 C tinfo), c)]"
  by (simp add: send_packet_headers_def Let_def writel_simps)

lemma send_packet_headers_state:
  "ram (send_packet_headers C hw bus tinfo pid s) = ram s"
  "i2c_controllers (send_packet_headers C hw bus tinfo pid s) = i2c_controllers s"
  by (simp_all add: send_packet_headers_def Let_def writel_simps)

lemma setbits_le32_trace:
  "\<exists>v a. trace (setbits_le32 hw r m s) = trace s @ [(Readl r, v), (Writel r (v OR m), a)]"
proof -
  obtain v s1 where rd: "readl hw r s = (v, s1)" by force
  from readl_D [OF rd] rd show ?thesis
    by (simp add: setbits_le32_def writel_simps)
qed

lemma setbits_le32_state:
  "ram (setbits_le32 hw r m s) = ram s"
  "i2c_controllers (setbits_le32 hw r m s) = i2c_controllers s"
proof -
  obtain v s1 where rd: "readl hw r s = (v, s1)" by force
  from readl_D [OF rd] rd show "ram (setbits_le32 hw r m s) = ram s"
    "i2c_controllers (setbits_le32 hw r m s) = i2c_controllers s"
    by (simp_all add: setbits_le32_def writel_simps)
qed

lemma i2c_reset_controller_trace:
  "\<exists>revs sl. trace (i2c_reset_controller C hw bus s) = trace s @ revs \<and>
      map fst revs = recovery_actions C bus sl \<and>
      (is_dvc bus = 0 \<longrightarrow> (Readl (I2c_sl_cnfg (regs bus)), sl) \<in> set revs)"
proof (cases "is_dvc bus = 0")
  case False
  then show ?thesis
    by (simp add: i2c_reset_controller_def set_packet_mode_def recovery_actions_def Let_def
        writel_simps reset_periph_simps)
next
  case True
  let ?cfg = "I2C_CNFG_NEW_MASTER_FSM_MASK C OR I2C_CNFG_PACKET_MODE_MASK C"
  let ?s0 = "reset_periph hw (periph_id bus) 1 s"
  let ?s1 = "writel hw ?cfg (I2c_cnfg (regs bus)) ?s0"
  from setbits_le32_trace [of hw "I2c_sl_cnfg (regs bus)" "I2C_SL_CNFG_NEWSL_MASK C" ?s1]
  obtain v a where sb:
    "trace (setbits_le32 hw (I2c_sl_cnfg (regs bus)) (I2C_SL_CNFG_NEWSL_MASK C) ?s1) =
      trace ?s1 @ [(Readl (I2c_sl_cnfg (regs bus)), v),
                   (Writel (I2c_sl_cnfg (regs bus)) (v OR I2C_SL_CNFG_NEWSL_MASK C), a)]"
    by blast
  let ?revs = "[(Reset_periph (periph_id bus) 1, fst (hw (Reset_periph (periph_id bus) 1) (dev s))),
      (Writel (I2c_cnfg (regs bus)) ?cfg, fst (hw (Writel (I2c_cnfg (regs bus)) ?cfg) (dev ?s0))),
      (Readl (I2c_sl_cnfg (regs bus)), v),
      (Writel (I2c_sl_cnfg (regs bus)) (v OR I2C_SL_CNFG_NEWSL_MASK C), a)]"
  have "trace (i2c_reset_controller C hw bus s) = trace s @ ?revs"
    using True sb
    by (simp add: i2c_reset_controller_def set_packet_mode_def Let_def writel_simps
        reset_periph_simps)
  moreover have "map fst ?revs = recovery_actions C bus v"
    using True by (simp add: recovery_actions_def)
  ultimately show ?thesis
    by (intro exI [of _ ?revs] exI [of _ v]) simp
qed

lemma i2c_reset_controller_state:
  "ram (i2c_reset_controller C hw bus s) = ram s"
  "i2c_controllers (i2c_reset_controller C hw bus s) = i2c_controllers s"
  by (simp_all add: i2c_reset_controller_def set_packet_mode_def Let_def writel_simps
      reset_periph_simps setbits_le32_state)

lemma recovery_quiet:
  assumes "map fst revs = recovery_actions C bus sl"
  shows "tx_words c revs = []" and "rx_words c revs = []"
proof -
  have "\<forall>e\<in>set revs. tx_word_of c e = [] \<and> rx_word_of c e = []"
  proof
    fix e assume "e \<in> set revs"
    then have "fst e \<in> set (recovery_actions C bus sl)" using assms by (metis image_eqI set_map)
    then show "tx_word_of c e = [] \<and> rx_word_of c e = []"
      by (cases e) (auto simp: recovery_actions_def split: if_splits)
  qed
  then show "tx_words c revs = []" and "rx_words c revs = []"
    by (simp_all add: tx_words_def rx_words_def)
qed


lemma xfer_decide_error:
  "xfer_decide C v = Some x \<Longrightarrow> x \<noteq> 0 \<Longrightarrow>
     x = - v \<and> (v AND I2C_INT_NO_ACK_MASK C \<noteq> 0 \<or> v AND I2C_INT_ARBITRATION_LOST_MASK C \<noteq> 0)"
  by (auto simp: xfer_decide_def split: if_splits)

lemma poll_loop_first:
  assumes "poll_loop hw r decide dflt t s = (x, s')" and "0 \<le> t"
  shows "\<exists>v evs. trace s' = trace s @ (Readl r, v) # evs"
proof -
  obtain v s1 where rd: "readl hw r s = (v, s1)" by force
  note rs = readl_D [OF rd]
  show ?thesis
  proof (cases "decide v")
    case (Some y)
    with assms rd have "s' = s1" by (simp add: poll_loop.simps [of hw r decide dflt t s])
    with rs show ?thesis by simp
  next
    case None
    with assms rd have "poll_loop hw r decide dflt (t - 10) (udelay hw 10 s1) = (x, s')"
      by (simp add: poll_loop.simps [of hw r decide dflt t s])
    from poll_loop_trace [OF this] obtain evs where "trace s' = trace (udelay hw 10 s1) @ evs"
      by blast
    with rs show ?thesis by (simp add: udelay_simps)
  qed
qed

lemma wait_for_transfer_complete_trace:
  assumes "wait_for_transfer_complete C hw ctl s = (x, s')"
  shows "\<exists>evs. trace s' = trace s @ evs \<and> tx_words c evs = [] \<and> rx_words c evs = [] \<and>
           ram s' = ram s \<and> i2c_controllers s' = i2c_controllers s \<and>
           (x = 0 \<longrightarrow> (\<exists>v. evs \<noteq> [] \<and> last evs = (Readl (Int_status ctl), v) \<and>
                          xfer_decide C v = Some 0)) \<and>
           (x \<noteq> 0 \<and> 0 \<le> I2C_TIMEOUT_USEC C \<longrightarrow> evs \<noteq> [] \<and>
              (fst (last evs) = Udelay 10 \<or>
               (\<exists>v. last evs = (Readl (Int_status ctl), v) \<and> x = - v \<and>
                    (v AND I2C_INT_NO_ACK_MASK C \<noteq> 0 \<or>
                     v AND I2C_INT_ARBITRATION_LOST_MASK C \<noteq> 0)))) \<and>
           (0 \<le> I2C_TIMEOUT_USEC C \<longrightarrow> evs \<noteq> [] \<and> fst (hd evs) = Readl (Int_status ctl))"
proof -
  from assms have pl:
    "poll_loop hw (Int_status ctl) (xfer_decide C) (- 1) (I2C_TIMEOUT_USEC C) s = (x, s')"
    by (simp add: wait_for_transfer_complete_def transfer_complete_loop_poll)
  from poll_loop_trace [OF pl] obtain evs where e:
    "trace s' = trace s @ evs"
    "\<forall>e\<in>set evs. (\<exists>v. e = (Readl (Int_status ctl), v)) \<or> (\<exists>v. e = (Udelay 10, v))"
    "ram s' = ram s" "i2c_controllers s' = i2c_controllers s"
    "(\<exists>v. xfer_decide C v = Some x \<and> evs \<noteq> [] \<and> last evs = (Readl (Int_status ctl), v)) \<or>
     (x = - 1 \<and> (0 \<le> I2C_TIMEOUT_USEC C \<longrightarrow> evs \<noteq> [] \<and> fst (last evs) = Udelay 10))"
    by blast
  have 1: "x = 0 \<longrightarrow> (\<exists>v. evs \<noteq> [] \<and> last evs = (Readl (Int_status ctl), v) \<and>
                          xfer_decide C v = Some 0)"
    using e(5) by auto
  have 2: "x \<noteq> 0 \<and> 0 \<le> I2C_TIMEOUT_USEC C \<longrightarrow> evs \<noteq> [] \<and>
              (fst (last evs) = Udelay 10 \<or>
               (\<exists>v. last evs = (Readl (Int_status ctl), v) \<and> x = - v \<and>
                    (v AND I2C_INT_NO_ACK_MASK C \<noteq> 0 \<or>
                     v AND I2C_INT_ARBITRATION_LOST_MASK C \<noteq> 0)))"
  proof (intro impI, elim conjE)
    assume x: "x \<noteq> 0" and t: "0 \<le> I2C_TIMEOUT_USEC C"
    from e(5) show "evs \<noteq> [] \<and>
              (fst (last evs) = Udelay 10 \<or>
               (\<exists>v. last evs = (Readl (Int_status ctl), v) \<and> x = - v \<and>
                    (v AND I2C_INT_NO_ACK_MASK C \<noteq> 0 \<or>
                     v AND I2C_INT_ARBITRATION_LOST_MASK C \<noteq> 0)))"
    proof
      assume "\<exists>v. xfer_decide C v = Some x \<and> evs \<noteq> [] \<and> last evs = (Readl (Int_status ctl), v)"
      then obtain v where v: "xfer_decide C v = Some x" "evs \<noteq> []"
        "last evs = (Readl (Int_status ctl), v)" by blast
      from xfer_decide_error [OF v(1) x] v(2,3) show ?thesis by blast
    next
      assume "x = - 1 \<and> (0 \<le> I2C_TIMEOUT_USEC C \<longrightarrow> evs \<noteq> [] \<and> fst (last evs) = Udelay 10)"
      with t show ?thesis by simp
    qed
  qed
  from poll_loop_first [OF pl] e(1)
  have 3: "0 \<le> I2C_TIMEOUT_USEC C \<longrightarrow> evs \<noteq> [] \<and> fst (hd evs) = Readl (Int_status ctl)"
    by auto
  from e(1,3,4) 1 2 3 poll_events_quiet [OF e(2), of ctl c] show ?thesis by blast
qed

subsection \<open>The structure of a call of send\_recv\_packets\<close>

lemma send_recv_packets_cases:
  assumes "send_recv_packets C hw bus tinfo s = (rc, s')"
  obtains v s1 e s4 x s5 where
    "readl hw (Int_status (control bus)) s = (v, s1)"
    "word_loop C hw (control bus) (flags tinfo AND I2C_IS_WRITE C)
       (ucast (num_bytes tinfo AND 3)) (DIV_ROUND_UP (num_bytes tinfo) 4) (buf tinfo)
       (send_packet_headers C hw bus tinfo 1 (writel hw v (Int_status (control bus)) s1)) = (e, s4)"
    "wait_for_transfer_complete C hw (control bus) s4 = (x, s5)"
    "e \<noteq> 0 \<longrightarrow> rc = e \<and> s' = i2c_reset_controller C hw bus s4"
    "e = 0 \<and> x \<noteq> 0 \<longrightarrow> rc = - 1 \<and> s' = i2c_reset_controller C hw bus s5"
    "e = 0 \<and> x = 0 \<longrightarrow> rc = 0 \<and> s' = s5"
proof -
  obtain v s1 where rd: "readl hw (Int_status (control bus)) s = (v, s1)" by force
  obtain e s4 where wl: "word_loop C hw (control bus) (flags tinfo AND I2C_IS_WRITE C)
       (ucast (num_bytes tinfo AND 3)) (DIV_ROUND_UP (num_bytes tinfo) 4) (buf tinfo)
       (send_packet_headers C hw bus tinfo 1 (writel hw v (Int_status (control bus)) s1)) = (e, s4)"
    by force
  obtain x s5 where wt: "wait_for_transfer_complete C hw (control bus) s4 = (x, s5)" by force
  from assms rd wl wt have
    "e \<noteq> 0 \<longrightarrow> rc = e \<and> s' = i2c_reset_controller C hw bus s4"
    "e = 0 \<and> x \<noteq> 0 \<longrightarrow> rc = - 1 \<and> s' = i2c_reset_controller C hw bus s5"
    "e = 0 \<and> x = 0 \<longrightarrow> rc = 0 \<and> s' = s5"
    by (auto simp: send_recv_packets_def Let_def)
  with rd wl wt that show thesis by blast
qed

lemma word_loop_summary:
  assumes "word_loop C hw ctl w lb words dptr s = (r, s')"
  shows "\<exists>evs. trace s' = trace s @ evs \<and> i2c_controllers s' = i2c_controllers s \<and>
     (r = 0 \<or> r = - 1) \<and>
     (r \<noteq> 0 \<and> 0 \<le> I2C_TIMEOUT_USEC C \<longrightarrow> evs \<noteq> [] \<and> fst (last evs) = Udelay 10) \<and>
     (w \<noteq> 0 \<longrightarrow> ram s' = ram s \<and> rx_words ctl evs = [] \<and>
        (\<exists>n. n \<le> unat words \<and> (r = 0 \<longrightarrow> n = unat words) \<and>
             (words \<noteq> 0 \<longrightarrow> n \<noteq> 0) \<and>
             tx_words ctl evs = payload_words (ram s) dptr n)) \<and>
     (w = 0 \<longrightarrow> tx_words ctl evs = [] \<and> length (rx_words ctl evs) \<le> unat words \<and>
        (r = 0 \<longrightarrow> length (rx_words ctl evs) = unat words) \<and>
        ram s' = store_bytes (ram s) dptr
                   (take (read_bytes lb words) (concat (map bytes_of_word (rx_words ctl evs)))))"
proof (cases "w = 0")
  case True
  with assms have "word_loop C hw ctl 0 lb words dptr s = (r, s')" by simp
  from word_loop_read [OF this] True show ?thesis by blast
next
  case False
  from word_loop_write [OF assms False] False show ?thesis by blast
qed

lemma send_recv_packets_summary:
  assumes "send_recv_packets C hw bus tinfo s = (rc, s')"
  shows "\<exists>v a0 a1 a2 a3 body tail.
     trace s' = trace s @
       [(Readl (Int_status (control bus)), v), (Writel (Int_status (control bus)) v, a0),
        (Writel (Tx_fifo (control bus)) (header1 C bus 1), a1),
        (Writel (Tx_fifo (control bus)) (header2 C tinfo), a2),
        (Writel (Tx_fifo (control bus)) (header3 C tinfo), a3)] @ body @ tail \<and>
     (rc = 0 \<or> rc = - 1) \<and> i2c_controllers s' = i2c_controllers s \<and>
     tx_words (control bus) tail = [] \<and> rx_words (control bus) tail = [] \<and>
     (flags tinfo AND I2C_IS_WRITE C \<noteq> 0 \<longrightarrow>
        ram s' = ram s \<and> rx_words (control bus) body = [] \<and>
        (\<exists>n. n \<le> (unat (num_bytes tinfo) + 3) div 4 \<and>
             (rc = 0 \<longrightarrow> n = (unat (num_bytes tinfo) + 3) div 4) \<and>
             (num_bytes tinfo \<noteq> 0 \<longrightarrow> n \<noteq> 0) \<and>
             tx_words (control bus) body = payload_words (ram s) (buf tinfo) n)) \<and>
     (flags tinfo AND I2C_IS_WRITE C = 0 \<longrightarrow>
        tx_words (control bus) body = [] \<and>
        length (rx_words (control bus) body) \<le> (unat (num_bytes tinfo) + 3) div 4 \<and>
        (rc = 0 \<longrightarrow> length (rx_words (control bus) body) = (unat (num_bytes tinfo) + 3) div 4) \<and>
        ram s' = store_bytes (ram s) (buf tinfo)
                   (take (unat (num_bytes tinfo))
                      (concat (map bytes_of_word (rx_words (control bus) body))))) \<and>
     (rc = 0 \<longrightarrow> tail = [] \<and>
        (\<exists>x. body \<noteq> [] \<and> last body = (Readl (Int_status (control bus)), x) \<and>
             xfer_decide C x = Some 0)) \<and>
     (rc \<noteq> 0 \<longrightarrow>
        (\<exists>sl. map fst tail = recovery_actions C bus sl \<and>
              (is_dvc bus = 0 \<longrightarrow> (Readl (I2c_sl_cnfg (regs bus)), sl) \<in> set tail)) \<and>
        (0 \<le> I2C_TIMEOUT_USEC C \<longrightarrow> body \<noteq> [] \<and>
           (fst (last body) = Udelay 10 \<or>
            (\<exists>x. last body = (Readl (Int_status (control bus)), x) \<and>
                 (x AND I2C_INT_NO_ACK_MASK C \<noteq> 0 \<or>
                  x AND I2C_INT_ARBITRATION_LOST_MASK C \<noteq> 0)))))"
proof -
  let ?ctl = "control bus"
  let ?w = "flags tinfo AND I2C_IS_WRITE C"
  let ?W = "(unat (num_bytes tinfo) + 3) div 4"
  from assms obtain v s1 e s4 x s5 where c:
    "readl hw (Int_status ?ctl) s = (v, s1)"
    "word_loop C hw ?ctl ?w (ucast (num_bytes tinfo AND 3)) (DIV_ROUND_UP (num_bytes tinfo) 4)
       (buf tinfo) (send_packet_headers C hw bus tinfo 1 (writel hw v (Int_status ?ctl) s1)) = (e, s4)"
    "wait_for_transfer_complete C hw ?ctl s4 = (x, s5)"
    "e \<noteq> 0 \<longrightarrow> rc = e \<and> s' = i2c_reset_controller C hw bus s4"
    "e = 0 \<and> x \<noteq> 0 \<longrightarrow> rc = - 1 \<and> s' = i2c_reset_controller C hw bus s5"
    "e = 0 \<and> x = 0 \<longrightarrow> rc = 0 \<and> s' = s5"
    by (rule send_recv_packets_cases)
  note rs = readl_D [OF c(1)]
  let ?s2 = "writel hw v (Int_status ?ctl) s1"
  let ?s3 = "send_packet_headers C hw bus tinfo 1 ?s2"
  from send_packet_headers_trace [of C hw bus tinfo 1 ?s2] obtain a1 a2 a3 where
    h: "trace ?s3 = trace ?s2 @ [(Writel (Tx_fifo ?ctl) (header1 C bus 1), a1),
                 (Writel (Tx_fifo ?ctl) (header2 C tinfo), a2),
                 (Writel (Tx_fifo ?ctl) (header3 C tinfo), a3)]"
    by blast
  let ?a0 = "fst (hw (Writel (Int_status ?ctl) v) (dev s1))"
  let ?pre = "[(Readl (Int_status ?ctl), v), (Writel (Int_status ?ctl) v, ?a0),
        (Writel (Tx_fifo ?ctl) (header1 C bus 1), a1),
        (Writel (Tx_fifo ?ctl) (header2 C tinfo), a2),
        (Writel (Tx_fifo ?ctl) (header3 C tinfo), a3)]"
  have t3: "trace ?s3 = trace s @ ?pre" using h rs(1) by (simp add: writel_simps)
  have m3: "ram ?s3 = ram s" "i2c_controllers ?s3 = i2c_controllers s"
    using rs(2,3) by (simp_all add: send_packet_headers_state writel_simps)
  from word_loop_summary [OF c(2)] obtain levs where l:
    "trace s4 = trace ?s3 @ levs" "i2c_controllers s4 = i2c_controllers ?s3"
    "e = 0 \<or> e = - 1"
    "e \<noteq> 0 \<and> 0 \<le> I2C_TIMEOUT_USEC C \<longrightarrow> levs \<noteq> [] \<and> fst (last levs) = Udelay 10"
    "?w \<noteq> 0 \<longrightarrow> ram s4 = ram ?s3 \<and> rx_words ?ctl levs = [] \<and>
        (\<exists>n. n \<le> unat (DIV_ROUND_UP (num_bytes tinfo) 4) \<and>
             (e = 0 \<longrightarrow> n = unat (DIV_ROUND_UP (num_bytes tinfo) 4)) \<and>
             (DIV_ROUND_UP (num_bytes tinfo) 4 \<noteq> 0 \<longrightarrow> n \<noteq> 0) \<and>
             tx_words ?ctl levs = payload_words (ram ?s3) (buf tinfo) n)"
    "?w = 0 \<longrightarrow> tx_words ?ctl levs = [] \<and>
        length (rx_words ?ctl levs) \<le> unat (DIV_ROUND_UP (num_bytes tinfo) 4) \<and>
        (e = 0 \<longrightarrow> length (rx_words ?ctl levs) = unat (DIV_ROUND_UP (num_bytes tinfo) 4)) \<and>
        ram s4 = store_bytes (ram ?s3) (buf tinfo)
                   (take (read_bytes (ucast (num_bytes tinfo AND 3)) (DIV_ROUND_UP (num_bytes tinfo) 4))
                      (concat (map bytes_of_word (rx_words ?ctl levs))))"
    by blast
  have nz: "num_bytes tinfo \<noteq> 0 \<Longrightarrow> DIV_ROUND_UP (num_bytes tinfo) 4 \<noteq> 0"
  proof -
    assume "num_bytes tinfo \<noteq> 0"
    then have "0 < unat (num_bytes tinfo)" by (simp add: unat_gt_0)
    then have "0 < (unat (num_bytes tinfo) + 3) div 4" by arith
    then have "unat (DIV_ROUND_UP (num_bytes tinfo) 4) \<noteq> 0" by (simp add: unat_DIV_ROUND_UP_4)
    then show ?thesis by (simp add: unat_eq_0 del: unat_eq_0 [symmetric]) 
  qed
  have lw: "?w \<noteq> 0 \<longrightarrow> ram s4 = ram s \<and> rx_words ?ctl levs = [] \<and>
        (\<exists>n. n \<le> ?W \<and> (e = 0 \<longrightarrow> n = ?W) \<and> (num_bytes tinfo \<noteq> 0 \<longrightarrow> n \<noteq> 0) \<and>
             tx_words ?ctl levs = payload_words (ram s) (buf tinfo) n)"
    using l(5) nz by (auto simp: m3 unat_DIV_ROUND_UP_4)
  have lr: "?w = 0 \<longrightarrow> tx_words ?ctl levs = [] \<and> length (rx_words ?ctl levs) \<le> ?W \<and>
        (e = 0 \<longrightarrow> length (rx_words ?ctl levs) = ?W) \<and>
        ram s4 = store_bytes (ram s) (buf tinfo)
                   (take (unat (num_bytes tinfo)) (concat (map bytes_of_word (rx_words ?ctl levs))))"
    using l(6) by (simp add: m3 unat_DIV_ROUND_UP_4 read_bytes_total)
  from wait_for_transfer_complete_trace [OF c(3), of ?ctl] obtain pevs where p:
    "trace s5 = trace s4 @ pevs" "tx_words ?ctl pevs = []" "rx_words ?ctl pevs = []"
    "ram s5 = ram s4" "i2c_controllers s5 = i2c_controllers s4"
    "x = 0 \<longrightarrow> (\<exists>v. pevs \<noteq> [] \<and> last pevs = (Readl (Int_status ?ctl), v) \<and>
                          xfer_decide C v = Some 0)"
    "x \<noteq> 0 \<and> 0 \<le> I2C_TIMEOUT_USEC C \<longrightarrow> pevs \<noteq> [] \<and>
              (fst (last pevs) = Udelay 10 \<or>
               (\<exists>v. last pevs = (Readl (Int_status ?ctl), v) \<and> x = - v \<and>
                    (v AND I2C_INT_NO_ACK_MASK C \<noteq> 0 \<or>
                     v AND I2C_INT_ARBITRATION_LOST_MASK C \<noteq> 0)))"
    by blast
  consider (loop) "e \<noteq> 0" | (poll) "e = 0" "x \<noteq> 0" | (ok) "e = 0" "x = 0" by blast
  then show ?thesis
  proof cases
    case loop
    with c(4) have r: "rc = e" "s' = i2c_reset_controller C hw bus s4" by simp_all
    from i2c_reset_controller_trace [of C hw bus s4] obtain revs sl where rv:
      "trace (i2c_reset_controller C hw bus s4) = trace s4 @ revs"
      "map fst revs = recovery_actions C bus sl"
      "is_dvc bus = 0 \<longrightarrow> (Readl (I2c_sl_cnfg (regs bus)), sl) \<in> set revs" by blast
    note q = recovery_quiet [OF rv(2), of ?ctl]
    have 1: "trace s' = trace s @ ?pre @ levs @ revs" using r rv(1) l(1) t3 by simp
    have 2: "rc = - 1" "rc \<noteq> 0" using r loop l(3) by auto
    have 3: "i2c_controllers s' = i2c_controllers s" "ram s' = ram s4"
      using r l(2) m3 by (simp_all add: i2c_reset_controller_state)
    show ?thesis
      apply (rule exI [of _ v], rule exI [of _ ?a0], rule exI [of _ a1], rule exI [of _ a2],
          rule exI [of _ a3], rule exI [of _ levs], rule exI [of _ revs])
      using 1 2 3 q lw lr l(4) loop rv(2,3) r(1) by auto
  next
    case poll
    with c(5) have r: "rc = - 1" "s' = i2c_reset_controller C hw bus s5" by simp_all
    from i2c_reset_controller_trace [of C hw bus s5] obtain revs sl where rv:
      "trace (i2c_reset_controller C hw bus s5) = trace s5 @ revs"
      "map fst revs = recovery_actions C bus sl"
      "is_dvc bus = 0 \<longrightarrow> (Readl (I2c_sl_cnfg (regs bus)), sl) \<in> set revs" by blast
    note q = recovery_quiet [OF rv(2), of ?ctl]
    have 1: "trace s' = trace s @ ?pre @ (levs @ pevs) @ revs" using r rv(1) l(1) t3 p(1) by simp
    have 3: "i2c_controllers s' = i2c_controllers s" "ram s' = ram s4"
      using r l(2) m3 p(4,5) by (simp_all add: i2c_reset_controller_state)
    have 4: "0 \<le> I2C_TIMEOUT_USEC C \<longrightarrow> levs @ pevs \<noteq> [] \<and>
           (fst (last (levs @ pevs)) = Udelay 10 \<or>
            (\<exists>x. last (levs @ pevs) = (Readl (Int_status ?ctl), x) \<and>
                 (x AND I2C_INT_NO_ACK_MASK C \<noteq> 0 \<or>
                  x AND I2C_INT_ARBITRATION_LOST_MASK C \<noteq> 0)))"
      using p(7) poll(2) by auto
    show ?thesis
      apply (rule exI [of _ v], rule exI [of _ ?a0], rule exI [of _ a1], rule exI [of _ a2],
          rule exI [of _ a3], rule exI [of _ "levs @ pevs"], rule exI [of _ revs])
      using 1 3 4 q lw lr poll rv(2,3) r(1) p(2,3) by auto
  next
    case ok
    with c(6) have r: "rc = 0" "s' = s5" by simp_all
    have 1: "trace s' = trace s @ ?pre @ (levs @ pevs) @ []" using r l(1) t3 p(1) by simp
    have 3: "i2c_controllers s' = i2c_controllers s" "ram s' = ram s4"
      using r l(2) m3 p(4,5) by simp_all
    have 4: "\<exists>x. levs @ pevs \<noteq> [] \<and> last (levs @ pevs) = (Readl (Int_status ?ctl), x) \<and>
             xfer_decide C x = Some 0"
      using p(6) ok(2) by auto
    show ?thesis
      apply (rule exI [of _ v], rule exI [of _ ?a0], rule exI [of _ a1], rule exI [of _ a2],
          rule exI [of _ a3], rule exI [of _ "levs @ pevs"], rule exI [of _ "[]"])
      using 1 3 4 lw lr ok r(1) p(2,3) by auto
  qed
qed

section \<open>The claims\<close>

lemma new_events_append: "trace s' = trace s @ evs \<Longrightarrow> new_events s s' = evs"
  by (simp add: new_events_def)

lemma poll_loop_decided:
  "poll_loop hw r decide dflt t s =
     (if \<exists>k. 10 * int k \<le> t \<and> decide (snapshot hw r k s) \<noteq> None
      then (the (decide (snapshot hw r (LEAST k. decide (snapshot hw r k s) \<noteq> None) s)),
            snd (readl hw r (poll_state hw r (LEAST k. decide (snapshot hw r k s) \<noteq> None) s)))
      else (dflt, poll_state hw r (nat ((t + 10) div 10)) s))"
proof (cases "\<exists>k. 10 * int k \<le> t \<and> decide (snapshot hw r k s) \<noteq> None")
  case True
  then obtain k0 where k0: "10 * int k0 \<le> t" "decide (snapshot hw r k0 s) \<noteq> None" by blast
  let ?k = "LEAST k. decide (snapshot hw r k s) \<noteq> None"
  have l1: "decide (snapshot hw r ?k s) \<noteq> None" using k0(2) by (rule LeastI)
  have l2: "?k \<le> k0" using k0(2) by (rule Least_le)
  have l3: "\<forall>j<?k. decide (snapshot hw r j s) = None" using not_less_Least by blast
  from l1 obtain x where x: "decide (snapshot hw r ?k s) = Some x" by blast
  have "10 * int ?k \<le> t" using l2 k0(1) by simp
  from poll_loop_hit [OF this l3 x, of dflt] show ?thesis
    unfolding if_P [OF True] x option.sel .
next
  case False
  then have "\<forall>k. 10 * int k \<le> t \<longrightarrow> decide (snapshot hw r k s) = None" by blast
  from poll_loop_miss [OF this, of dflt] show ?thesis
    unfolding if_not_P [OF False] .
qed

text \<open>
  C7. The receive-ready poll returns 1 exactly when one of its reads of the FIFO status
  register, taken every 10 microseconds while the budget \<^verbatim>\<open>I2C_TIMEOUT_USEC\<close> lasts,
  shows a nonzero value in the field that the code selects with
  \<^verbatim>\<open>TX_FIFO_FULL_CNT_MASK\<close> and \<^verbatim>\<open>TX_FIFO_FULL_CNT_SHIFT\<close>; otherwise it returns 0, after
  the budget has run out. The decision looks at no other bit of the status value: when
  the mask of the transmit field \<^verbatim>\<open>TX_FIFO_EMPTY_CNT_MASK\<close> shares no bit with it,
  changing the transmit field of a status value changes nothing.
\<close>

theorem wait_for_rx_fifo_notempty_iff:
  "wait_for_rx_fifo_notempty C hw ctl s =
     (if \<exists>k. 10 * int k \<le> I2C_TIMEOUT_USEC C \<and>
             tx_fifo_full_cnt C (snapshot hw (Fifo_status ctl) k s) \<noteq> 0
      then (1, snd (readl hw (Fifo_status ctl)
                 (poll_state hw (Fifo_status ctl)
                    (LEAST k. tx_fifo_full_cnt C (snapshot hw (Fifo_status ctl) k s) \<noteq> 0) s)))
      else (0, poll_state hw (Fifo_status ctl) (nat ((I2C_TIMEOUT_USEC C + 10) div 10)) s)) \<and>
   (TX_FIFO_EMPTY_CNT_MASK C AND TX_FIFO_FULL_CNT_MASK C = 0 \<longrightarrow>
      (\<forall>v x. tx_fifo_full_cnt C (v XOR (x AND TX_FIFO_EMPTY_CNT_MASK C)) = tx_fifo_full_cnt C v))"
proof
  let ?r = "Fifo_status ctl"
  let ?Q = "\<lambda>k. tx_fifo_full_cnt C (snapshot hw ?r k s) \<noteq> 0"
  have d: "\<And>v. rx_notempty_decide C v \<noteq> None \<longleftrightarrow> tx_fifo_full_cnt C v \<noteq> 0"
    by (simp add: rx_notempty_decide_def)
  note pd = poll_loop_decided [of hw ?r "rx_notempty_decide C" 0 "I2C_TIMEOUT_USEC C" s,
      unfolded d]
  have w: "wait_for_rx_fifo_notempty C hw ctl s =
             poll_loop hw ?r (rx_notempty_decide C) 0 (I2C_TIMEOUT_USEC C) s"
    by (simp only: wait_for_rx_fifo_notempty_def rx_fifo_notempty_loop_poll)
  show "wait_for_rx_fifo_notempty C hw ctl s =
     (if \<exists>k. 10 * int k \<le> I2C_TIMEOUT_USEC C \<and> ?Q k
      then (1, snd (readl hw ?r (poll_state hw ?r (LEAST k. ?Q k) s)))
      else (0, poll_state hw ?r (nat ((I2C_TIMEOUT_USEC C + 10) div 10)) s))"
  proof (cases "\<exists>k. 10 * int k \<le> I2C_TIMEOUT_USEC C \<and> ?Q k")
    case True
    then obtain k0 where "?Q k0" by blast
    then have "?Q (LEAST k. ?Q k)" by (rule LeastI)
    then have "the (rx_notempty_decide C (snapshot hw ?r (LEAST k. ?Q k) s)) = 1"
      by (simp add: rx_notempty_decide_def)
    with pd show ?thesis unfolding w if_P [OF True] by simp
  next
    case False
    with pd show ?thesis unfolding w if_not_P [OF False] by simp
  qed
next
  show "TX_FIFO_EMPTY_CNT_MASK C AND TX_FIFO_FULL_CNT_MASK C = 0 \<longrightarrow>
      (\<forall>v x. tx_fifo_full_cnt C (v XOR (x AND TX_FIFO_EMPTY_CNT_MASK C)) = tx_fifo_full_cnt C v)"
  proof (intro impI allI)
    fix v x
    assume dis: "TX_FIFO_EMPTY_CNT_MASK C AND TX_FIFO_FULL_CNT_MASK C = 0"
    have "(v XOR (x AND TX_FIFO_EMPTY_CNT_MASK C)) AND TX_FIFO_FULL_CNT_MASK C =
            (v AND TX_FIFO_FULL_CNT_MASK C) XOR
            (x AND (TX_FIFO_EMPTY_CNT_MASK C AND TX_FIFO_FULL_CNT_MASK C))"
      by (simp add: bit.conj_xor_distrib2 and.assoc)
    also have "\<dots> = v AND TX_FIFO_FULL_CNT_MASK C" by (simp add: dis)
    finally show "tx_fifo_full_cnt C (v XOR (x AND TX_FIFO_EMPTY_CNT_MASK C)) = tx_fifo_full_cnt C v"
      by (simp add: tx_fifo_full_cnt_def)
  qed
qed

theorem wait_for_rx_fifo_notempty_iff_witness:
  "TX_FIFO_EMPTY_CNT_MASK sample_consts AND TX_FIFO_FULL_CNT_MASK sample_consts = 0 \<and>
   tx_fifo_full_cnt sample_consts (0x01 XOR (0xFFFFFFFF AND TX_FIFO_EMPTY_CNT_MASK sample_consts)) =
     tx_fifo_full_cnt sample_consts 0x01 \<and>
   tx_fifo_full_cnt sample_consts 0x01 = 1"
proof -
  have m: "TX_FIFO_EMPTY_CNT_MASK sample_consts AND TX_FIFO_FULL_CNT_MASK sample_consts = 0"
    by (simp add: sample_consts_def)
  have c: "tx_fifo_full_cnt sample_consts 0x01 = 1"
    by (simp add: tx_fifo_full_cnt_def sample_consts_def)
  from wait_for_rx_fifo_notempty_iff [of sample_consts "const_hw 0 0 0" 0 "init_sys () (\<lambda>a. 0) []"]
    m c
  show ?thesis by blast
qed

text \<open>
  C3. \<^verbatim>\<open>send_packet_headers\<close> performs exactly three register accesses, all of them
  writes to the command FIFO: the first word carries the protocol type, the packet id
  and the controller id, the second carries \<open>num_bytes - 1\<close> at the payload-size
  position, the third carries the address at the address position, with the read-mode
  mask added exactly when the write flag of the descriptor is clear. When the shifted
  address does not reach the read-mode bit, that bit of the third word is set exactly
  when the write flag is clear. For \<^verbatim>\<open>i2c_write_data\<close> to chip \<open>0x50\<close> with three bytes,
  the second word encodes 2 and the third encodes \<open>0xA0\<close> without the read-mode mask.
\<close>

theorem send_packet_headers_words:
  "new_actions s (send_packet_headers C hw bus tinfo packet_id s) =
     [Writel (Tx_fifo (control bus))
        (push_bit (PKT_HDR1_PROTOCOL_SHIFT C) (PROTOCOL_TYPE_I2C C)
           OR push_bit (PKT_HDR1_PKT_ID_SHIFT C) packet_id
           OR push_bit (PKT_HDR1_CTLR_ID_SHIFT C) (bus_id bus)),
      Writel (Tx_fifo (control bus))
        (push_bit (PKT_HDR2_PAYLOAD_SIZE_SHIFT C) (num_bytes tinfo - 1)),
      Writel (Tx_fifo (control bus))
        (if flags tinfo AND I2C_IS_WRITE C = 0
         then push_bit (PKT_HDR3_SLAVE_ADDR_SHIFT C) (address tinfo) OR PKT_HDR3_READ_MODE_MASK C
         else push_bit (PKT_HDR3_SLAVE_ADDR_SHIFT C) (address tinfo))] \<and>
   (PKT_HDR3_READ_MODE_MASK C \<noteq> 0 \<and>
    push_bit (PKT_HDR3_SLAVE_ADDR_SHIFT C) (address tinfo) AND PKT_HDR3_READ_MODE_MASK C = 0 \<longrightarrow>
      (header3 C tinfo AND PKT_HDR3_READ_MODE_MASK C = PKT_HDR3_READ_MODE_MASK C
         \<longleftrightarrow> flags tinfo AND I2C_IS_WRITE C = 0)) \<and>
   (I2C_IS_WRITE C \<noteq> 0 \<longrightarrow>
      take 3 (tx_words (control bus)
                (new_events s (snd (i2c_write_data C hw bus 0x50 buffer 3 s)))) =
        [push_bit (PKT_HDR1_PROTOCOL_SHIFT C) (PROTOCOL_TYPE_I2C C)
           OR push_bit (PKT_HDR1_PKT_ID_SHIFT C) 1
           OR push_bit (PKT_HDR1_CTLR_ID_SHIFT C) (bus_id bus),
         push_bit (PKT_HDR2_PAYLOAD_SIZE_SHIFT C) 2,
         push_bit (PKT_HDR3_SLAVE_ADDR_SHIFT C) 0xA0])"
proof (intro conjI impI)
  from send_packet_headers_trace [of C hw bus tinfo packet_id s] obtain a b c where
    "trace (send_packet_headers C hw bus tinfo packet_id s) =
      trace s @ [(Writel (Tx_fifo (control bus)) (header1 C bus packet_id), a),
                 (Writel (Tx_fifo (control bus)) (header2 C tinfo), b),
                 (Writel (Tx_fifo (control bus)) (header3 C tinfo), c)]"
    by blast
  from new_events_append [OF this]
  show "new_actions s (send_packet_headers C hw bus tinfo packet_id s) =
     [Writel (Tx_fifo (control bus))
        (push_bit (PKT_HDR1_PROTOCOL_SHIFT C) (PROTOCOL_TYPE_I2C C)
           OR push_bit (PKT_HDR1_PKT_ID_SHIFT C) packet_id
           OR push_bit (PKT_HDR1_CTLR_ID_SHIFT C) (bus_id bus)),
      Writel (Tx_fifo (control bus))
        (push_bit (PKT_HDR2_PAYLOAD_SIZE_SHIFT C) (num_bytes tinfo - 1)),
      Writel (Tx_fifo (control bus))
        (if flags tinfo AND I2C_IS_WRITE C = 0
         then push_bit (PKT_HDR3_SLAVE_ADDR_SHIFT C) (address tinfo) OR PKT_HDR3_READ_MODE_MASK C
         else push_bit (PKT_HDR3_SLAVE_ADDR_SHIFT C) (address tinfo))]"
    by (simp add: new_actions_def header1_def header2_def header3_def Let_def)
next
  assume a: "PKT_HDR3_READ_MODE_MASK C \<noteq> 0 \<and>
    push_bit (PKT_HDR3_SLAVE_ADDR_SHIFT C) (address tinfo) AND PKT_HDR3_READ_MODE_MASK C = 0"
  show "header3 C tinfo AND PKT_HDR3_READ_MODE_MASK C = PKT_HDR3_READ_MODE_MASK C
         \<longleftrightarrow> flags tinfo AND I2C_IS_WRITE C = 0"
  proof (cases "flags tinfo AND I2C_IS_WRITE C = 0")
    case True
    then have "header3 C tinfo AND PKT_HDR3_READ_MODE_MASK C =
        (push_bit (PKT_HDR3_SLAVE_ADDR_SHIFT C) (address tinfo) AND PKT_HDR3_READ_MODE_MASK C)
          OR PKT_HDR3_READ_MODE_MASK C"
      by (simp add: header3_def Let_def bit.conj_disj_distrib2)
    with a True show ?thesis by simp
  next
    case False
    then have "header3 C tinfo AND PKT_HDR3_READ_MODE_MASK C = 0"
      using a by (simp add: header3_def Let_def)
    with a False show ?thesis by auto
  qed
next
  assume w: "I2C_IS_WRITE C \<noteq> 0"
  let ?ti = "\<lparr>address = push_bit 1 (ucast (0x50 :: u8)), buf = buffer, flags = I2C_IS_WRITE C,
              num_bytes = 3, is_10bit_address = 0\<rparr>"
  let ?X = "send_recv_packets C hw bus ?ti s"
  have p: "?X = (fst ?X, snd ?X)" by simp
  from send_recv_packets_summary [OF p] obtain v a0 a1 a2 a3 body tail where t:
    "trace (snd ?X) = trace s @
       [(Readl (Int_status (control bus)), v), (Writel (Int_status (control bus)) v, a0),
        (Writel (Tx_fifo (control bus)) (header1 C bus 1), a1),
        (Writel (Tx_fifo (control bus)) (header2 C ?ti), a2),
        (Writel (Tx_fifo (control bus)) (header3 C ?ti), a3)] @ body @ tail"
    by blast
  have h1: "header1 C bus 1 = push_bit (PKT_HDR1_PROTOCOL_SHIFT C) (PROTOCOL_TYPE_I2C C)
           OR push_bit (PKT_HDR1_PKT_ID_SHIFT C) 1
           OR push_bit (PKT_HDR1_CTLR_ID_SHIFT C) (bus_id bus)"
    by (simp add: header1_def)
  have h2: "header2 C ?ti = push_bit (PKT_HDR2_PAYLOAD_SIZE_SHIFT C) 2"
    by (simp add: header2_def)
  have h3: "header3 C ?ti = push_bit (PKT_HDR3_SLAVE_ADDR_SHIFT C) 0xA0"
    using w by (simp add: header3_def)
  have "tx_words (control bus) (new_events s (snd ?X)) =
          [header1 C bus 1, header2 C ?ti, header3 C ?ti]
            @ tx_words (control bus) body @ tx_words (control bus) tail"
    unfolding new_events_append [OF t] by (simp add: tx_words_Cons)
  then have "take 3 (tx_words (control bus) (new_events s (snd ?X))) =
          [header1 C bus 1, header2 C ?ti, header3 C ?ti]"
    by simp
  then show "take 3 (tx_words (control bus)
                (new_events s (snd (i2c_write_data C hw bus 0x50 buffer 3 s)))) =
        [push_bit (PKT_HDR1_PROTOCOL_SHIFT C) (PROTOCOL_TYPE_I2C C)
           OR push_bit (PKT_HDR1_PKT_ID_SHIFT C) 1
           OR push_bit (PKT_HDR1_CTLR_ID_SHIFT C) (bus_id bus),
         push_bit (PKT_HDR2_PAYLOAD_SIZE_SHIFT C) 2,
         push_bit (PKT_HDR3_SLAVE_ADDR_SHIFT C) 0xA0]"
    unfolding h1 h2 h3 by (simp add: i2c_write_data_def tegra_i2c_write_data_def)
qed

theorem send_packet_headers_words_witness:
  "PKT_HDR3_READ_MODE_MASK sample_consts \<noteq> 0 \<and>
   push_bit (PKT_HDR3_SLAVE_ADDR_SHIFT sample_consts) (address sample_read)
     AND PKT_HDR3_READ_MODE_MASK sample_consts = 0 \<and>
   flags sample_read AND I2C_IS_WRITE sample_consts = 0 \<and>
   header3 sample_consts sample_read AND PKT_HDR3_READ_MODE_MASK sample_consts
     = PKT_HDR3_READ_MODE_MASK sample_consts \<and>
   I2C_IS_WRITE sample_consts \<noteq> 0 \<and>
   take 3 (tx_words (control sample_bus)
            (new_events (init_sys () (\<lambda>a. 0) [])
               (snd (i2c_write_data sample_consts (const_hw 0x80 0x80 0) sample_bus 0x50 0x1001 3
                       (init_sys () (\<lambda>a. 0) []))))) = [0x10010, 2, 0xA0]"
proof -
  have 1: "PKT_HDR3_READ_MODE_MASK sample_consts \<noteq> 0"
    "push_bit (PKT_HDR3_SLAVE_ADDR_SHIFT sample_consts) (address sample_read)
       AND PKT_HDR3_READ_MODE_MASK sample_consts = 0"
    "flags sample_read AND I2C_IS_WRITE sample_consts = 0"
    "I2C_IS_WRITE sample_consts \<noteq> 0"
    by (simp_all add: sample_consts_def sample_read_def)
  have 2: "push_bit (PKT_HDR1_PROTOCOL_SHIFT sample_consts) (PROTOCOL_TYPE_I2C sample_consts)
           OR push_bit (PKT_HDR1_PKT_ID_SHIFT sample_consts) 1
           OR push_bit (PKT_HDR1_CTLR_ID_SHIFT sample_consts) (bus_id sample_bus) = 0x10010"
    "push_bit (PKT_HDR2_PAYLOAD_SIZE_SHIFT sample_consts) (2 :: u32) = 2"
    "push_bit (PKT_HDR3_SLAVE_ADDR_SHIFT sample_consts) (0xA0 :: u32) = 0xA0"
    by (simp_all add: sample_consts_def sample_bus_def)
  from send_packet_headers_words [of "init_sys () (\<lambda>a. 0) []" sample_consts "const_hw 0x80 0x80 0"
      sample_bus sample_read 1 "0x1001"] 1
  show ?thesis unfolding 2 by blast
qed

text \<open>
  C10. With payload length 0 the engine still writes the three header words, the second
  of them computed from \<open>0 - 1\<close>, which wraps to \<open>2^32 - 1\<close> before it is shifted to the
  payload-size position. It writes no payload word and reads none, and the first
  register access after the header words is the read of the interrupt status register
  that starts the wait for the end of the transfer.
\<close>

theorem send_recv_packets_zero_length:
  assumes "num_bytes tinfo = 0" and "send_recv_packets C hw bus tinfo s = (rc, s')"
  shows "tx_words (control bus) (new_events s s') =
           [header1 C bus 1,
            push_bit (PKT_HDR2_PAYLOAD_SIZE_SHIFT C) (word_of_nat (2 ^ 32 - 1)),
            header3 C tinfo] \<and>
         unat (num_bytes tinfo - 1) = 2 ^ 32 - 1 \<and>
         rx_words (control bus) (new_events s s') = [] \<and>
         (0 \<le> I2C_TIMEOUT_USEC C \<longrightarrow>
            take 6 (new_actions s s') =
              [Readl (Int_status (control bus)),
               Writel (Int_status (control bus)) (fst (readl hw (Int_status (control bus)) s)),
               Writel (Tx_fifo (control bus)) (header1 C bus 1),
               Writel (Tx_fifo (control bus))
                 (push_bit (PKT_HDR2_PAYLOAD_SIZE_SHIFT C) (word_of_nat (2 ^ 32 - 1))),
               Writel (Tx_fifo (control bus)) (header3 C tinfo),
               Readl (Int_status (control bus))])"
proof -
  let ?ctl = "control bus"
  from assms(2) obtain v s1 e s4 x s5 where c:
    "readl hw (Int_status ?ctl) s = (v, s1)"
    "word_loop C hw ?ctl (flags tinfo AND I2C_IS_WRITE C) (ucast (num_bytes tinfo AND 3))
       (DIV_ROUND_UP (num_bytes tinfo) 4) (buf tinfo)
       (send_packet_headers C hw bus tinfo 1 (writel hw v (Int_status ?ctl) s1)) = (e, s4)"
    "wait_for_transfer_complete C hw ?ctl s4 = (x, s5)"
    "e \<noteq> 0 \<longrightarrow> rc = e \<and> s' = i2c_reset_controller C hw bus s4"
    "e = 0 \<and> x \<noteq> 0 \<longrightarrow> rc = - 1 \<and> s' = i2c_reset_controller C hw bus s5"
    "e = 0 \<and> x = 0 \<longrightarrow> rc = 0 \<and> s' = s5"
    by (rule send_recv_packets_cases)
  note rs = readl_D [OF c(1)]
  let ?s3 = "send_packet_headers C hw bus tinfo 1 (writel hw v (Int_status ?ctl) s1)"
  have m1: "word_of_nat (2 ^ 32 - 1) = (- 1 :: u32)" by simp
  have h2: "header2 C tinfo = push_bit (PKT_HDR2_PAYLOAD_SIZE_SHIFT C) (word_of_nat (2 ^ 32 - 1))"
    unfolding m1 by (simp add: header2_def assms(1))
  have w0: "DIV_ROUND_UP (num_bytes tinfo) 4 = 0" by (simp add: DIV_ROUND_UP_def assms(1))
  from c(2) have e: "e = 0" "s4 = ?s3"
    unfolding w0 by (simp_all add: word_loop.simps [of _ _ _ _ _ 0])
  from send_packet_headers_trace [of C hw bus tinfo 1 "writel hw v (Int_status ?ctl) s1"]
  obtain a1 a2 a3 where
    h: "trace ?s3 = trace (writel hw v (Int_status ?ctl) s1) @
          [(Writel (Tx_fifo ?ctl) (header1 C bus 1), a1),
           (Writel (Tx_fifo ?ctl) (header2 C tinfo), a2),
           (Writel (Tx_fifo ?ctl) (header3 C tinfo), a3)]"
    by blast
  let ?pre = "[(Readl (Int_status ?ctl), v),
        (Writel (Int_status ?ctl) v, fst (hw (Writel (Int_status ?ctl) v) (dev s1))),
        (Writel (Tx_fifo ?ctl) (header1 C bus 1), a1),
        (Writel (Tx_fifo ?ctl) (header2 C tinfo), a2),
        (Writel (Tx_fifo ?ctl) (header3 C tinfo), a3)]"
  have t4: "trace s4 = trace s @ ?pre" using h rs(1) e(2) by (simp add: writel_simps)
  from wait_for_transfer_complete_trace [OF c(3), of ?ctl] obtain pevs where p:
    "trace s5 = trace s4 @ pevs" "tx_words ?ctl pevs = []" "rx_words ?ctl pevs = []"
    "0 \<le> I2C_TIMEOUT_USEC C \<longrightarrow> pevs \<noteq> [] \<and> fst (hd pevs) = Readl (Int_status ?ctl)"
    by blast
  have "\<exists>tail. trace s' = trace s5 @ tail \<and> tx_words ?ctl tail = [] \<and> rx_words ?ctl tail = []"
  proof (cases "x = 0")
    case True
    with e c(6) show ?thesis by simp
  next
    case False
    with e c(5) have s': "s' = i2c_reset_controller C hw bus s5" by simp
    from i2c_reset_controller_trace [of C hw bus s5] obtain revs sl where rv:
      "trace (i2c_reset_controller C hw bus s5) = trace s5 @ revs"
      "map fst revs = recovery_actions C bus sl" by blast
    from recovery_quiet [OF rv(2), of ?ctl] rv(1) s' show ?thesis by blast
  qed
  then obtain tail where tl: "trace s' = trace s5 @ tail" "tx_words ?ctl tail = []"
    "rx_words ?ctl tail = []" by blast
  have t: "trace s' = trace s @ (?pre @ pevs @ tail)" using tl(1) p(1) t4 by simp
  note ne = new_events_append [OF t]
  have 1: "tx_words ?ctl (new_events s s') =
           [header1 C bus 1,
            push_bit (PKT_HDR2_PAYLOAD_SIZE_SHIFT C) (word_of_nat (2 ^ 32 - 1)),
            header3 C tinfo]"
    unfolding ne using p(2) tl(2) h2 by (simp add: tx_words_Cons)
  have 2: "rx_words ?ctl (new_events s s') = []"
    unfolding ne using p(3) tl(3) by (simp add: rx_words_Cons)
  have 3: "unat (num_bytes tinfo - 1) = 2 ^ 32 - 1"
    by (simp add: assms(1) unsigned_minus_1_eq_mask mask_eq_exp_minus_1)
  have 4: "0 \<le> I2C_TIMEOUT_USEC C \<longrightarrow>
            take 6 (new_actions s s') =
              [Readl (Int_status ?ctl),
               Writel (Int_status ?ctl) (fst (readl hw (Int_status ?ctl) s)),
               Writel (Tx_fifo ?ctl) (header1 C bus 1),
               Writel (Tx_fifo ?ctl)
                 (push_bit (PKT_HDR2_PAYLOAD_SIZE_SHIFT C) (word_of_nat (2 ^ 32 - 1))),
               Writel (Tx_fifo ?ctl) (header3 C tinfo),
               Readl (Int_status ?ctl)]"
  proof
    assume "0 \<le> I2C_TIMEOUT_USEC C"
    with p(4) obtain pe ps where pp: "pevs = pe # ps" "fst pe = Readl (Int_status ?ctl)"
      by (cases pevs) auto
    show "take 6 (new_actions s s') =
              [Readl (Int_status ?ctl),
               Writel (Int_status ?ctl) (fst (readl hw (Int_status ?ctl) s)),
               Writel (Tx_fifo ?ctl) (header1 C bus 1),
               Writel (Tx_fifo ?ctl)
                 (push_bit (PKT_HDR2_PAYLOAD_SIZE_SHIFT C) (word_of_nat (2 ^ 32 - 1))),
               Writel (Tx_fifo ?ctl) (header3 C tinfo),
               Readl (Int_status ?ctl)]"
      unfolding new_actions_def ne pp(1) using pp(2) c(1) h2 by simp
  qed
  from 1 2 3 4 show ?thesis by blast
qed

theorem send_recv_packets_zero_length_witness:
  "num_bytes (sample_write\<lparr>num_bytes := 0\<rparr>) = 0 \<and> 0 \<le> I2C_TIMEOUT_USEC sample_consts \<and>
   tx_words (control sample_bus)
     (new_events (init_sys () (\<lambda>a. 0) [])
        (snd (send_recv_packets sample_consts (const_hw 0x80 0x80 0) sample_bus
                (sample_write\<lparr>num_bytes := 0\<rparr>) (init_sys () (\<lambda>a. 0) [])))) =
     [0x10010, 0xFFFFFFFF, 0xA0]"
proof -
  let ?s0 = "init_sys () (\<lambda>a. 0) [] :: unit sys"
  let ?t = "sample_write\<lparr>num_bytes := 0\<rparr>"
  let ?X = "send_recv_packets sample_consts (const_hw 0x80 0x80 0) sample_bus ?t ?s0"
  have p: "?X = (fst ?X, snd ?X)" by simp
  have n: "num_bytes ?t = 0" by simp
  have t: "0 \<le> I2C_TIMEOUT_USEC sample_consts" by (simp add: sample_consts_def)
  have h: "header1 sample_consts sample_bus 1 = 0x10010"
    "push_bit (PKT_HDR2_PAYLOAD_SIZE_SHIFT sample_consts) (word_of_nat (2 ^ 32 - 1) :: u32) = 0xFFFFFFFF"
    "header3 sample_consts ?t = 0xA0"
    by (simp_all add: header1_def header3_def sample_consts_def sample_bus_def sample_write_def)
  from send_recv_packets_zero_length [OF n p] n t show ?thesis unfolding h by blast
qed

text \<open>
  C9. On a bus whose \<open>inited\<close> flag is set, \<^verbatim>\<open>tegra_i2c_probe\<close> stores 0 in its local
  byte and calls \<^verbatim>\<open>i2c_write_data\<close> for that one byte; it returns 0 (present) exactly
  when the write returns 0, and 1 for every other result of the write. The write puts
  four words into the command FIFO: the three header words, with payload size \<open>1 - 1\<close>
  and the chip address shifted left by one as the address, and one payload word
  whose lowest byte is 0.
\<close>

theorem tegra_i2c_probe_write:
  assumes "inited (i2c_controllers s ! n) \<noteq> 0" and "I2C_IS_WRITE C \<noteq> 0"
  shows "tegra_i2c_probe C hw n chip reg_addr s =
           (if fst (i2c_write_data C hw (i2c_controllers s ! n) chip reg_addr 1
                      (s\<lparr>ram := (ram s)(reg_addr := 0)\<rparr>)) = 0 then 0 else 1,
            snd (i2c_write_data C hw (i2c_controllers s ! n) chip reg_addr 1
                      (s\<lparr>ram := (ram s)(reg_addr := 0)\<rparr>))) \<and>
         (\<exists>w. tx_words (control (i2c_controllers s ! n))
                 (new_events s (snd (tegra_i2c_probe C hw n chip reg_addr s))) =
                 [header1 C (i2c_controllers s ! n) 1,
                  push_bit (PKT_HDR2_PAYLOAD_SIZE_SHIFT C) 0,
                  push_bit (PKT_HDR3_SLAVE_ADDR_SHIFT C) (push_bit 1 (ucast chip)),
                  w] \<and>
              (ucast w :: u8) = 0)"
proof -
  let ?bus = "i2c_controllers s ! n"
  let ?s1 = "s\<lparr>ram := (ram s)(reg_addr := 0)\<rparr>"
  let ?ti = "\<lparr>address = push_bit 1 (ucast chip), buf = reg_addr, flags = I2C_IS_WRITE C,
              num_bytes = 1, is_10bit_address = 0\<rparr>"
  let ?W = "i2c_write_data C hw ?bus chip reg_addr 1 ?s1"
  have W: "?W = send_recv_packets C hw ?bus ?ti ?s1"
    by (simp add: i2c_write_data_def tegra_i2c_write_data_def)
  have 1: "tegra_i2c_probe C hw n chip reg_addr s = (if fst ?W = 0 then 0 else 1, snd ?W)"
    using assms(1)
    by (simp add: tegra_i2c_probe_def tegra_i2c_get_bus_def Let_def split: prod.splits)
  have p: "send_recv_packets C hw ?bus ?ti ?s1 =
             (fst (send_recv_packets C hw ?bus ?ti ?s1), snd (send_recv_packets C hw ?bus ?ti ?s1))"
    by simp
  have fw: "flags ?ti AND I2C_IS_WRITE C \<noteq> 0" using assms(2) by simp
  from send_recv_packets_summary [OF p] obtain v a0 a1 a2 a3 body tail where
    t1: "trace (snd (send_recv_packets C hw ?bus ?ti ?s1)) = trace ?s1 @
       [(Readl (Int_status (control ?bus)), v), (Writel (Int_status (control ?bus)) v, a0),
        (Writel (Tx_fifo (control ?bus)) (header1 C ?bus 1), a1),
        (Writel (Tx_fifo (control ?bus)) (header2 C ?ti), a2),
        (Writel (Tx_fifo (control ?bus)) (header3 C ?ti), a3)] @ body @ tail"
    and t2: "tx_words (control ?bus) tail = []"
    and wr: "flags ?ti AND I2C_IS_WRITE C \<noteq> 0 \<longrightarrow>
        ram (snd (send_recv_packets C hw ?bus ?ti ?s1)) = ram ?s1 \<and>
        rx_words (control ?bus) body = [] \<and>
        (\<exists>n. n \<le> (unat (num_bytes ?ti) + 3) div 4 \<and>
             (fst (send_recv_packets C hw ?bus ?ti ?s1) = 0 \<longrightarrow>
                n = (unat (num_bytes ?ti) + 3) div 4) \<and>
             (num_bytes ?ti \<noteq> 0 \<longrightarrow> n \<noteq> 0) \<and>
             tx_words (control ?bus) body = payload_words (ram ?s1) (buf ?ti) n)"
    by blast
  from wr fw obtain n' where t:
    "n' \<le> (unat (num_bytes ?ti) + 3) div 4" "num_bytes ?ti \<noteq> 0 \<longrightarrow> n' \<noteq> 0"
    "tx_words (control ?bus) body = payload_words (ram ?s1) (buf ?ti) n'"
    by blast
  from t(1,2) have n': "n' = 1" by simp
  let ?w = "word_of_bytes (load_bytes (ram ?s1) reg_addr 4)"
  have body: "tx_words (control ?bus) body = [?w]"
    using t(3) unfolding n' by (simp add: payload_words_def)
  have l: "load_bytes (ram ?s1) reg_addr 4 = 0 # load_bytes (ram ?s1) (reg_addr + 1) 3"
    by (simp add: load_bytes_def upt_rec add.assoc)
  have lo: "(ucast ?w :: u8) = 0" unfolding l word_of_bytes.simps by (rule byte0)
  have h2: "header2 C ?ti = push_bit (PKT_HDR2_PAYLOAD_SIZE_SHIFT C) 0"
    by (simp add: header2_def)
  have h3: "header3 C ?ti = push_bit (PKT_HDR3_SLAVE_ADDR_SHIFT C) (push_bit 1 (ucast chip))"
    using assms(2) by (simp add: header3_def)
  have tr: "trace ?s1 = trace s" by simp
  have ne: "new_events s (snd (tegra_i2c_probe C hw n chip reg_addr s)) =
       [(Readl (Int_status (control ?bus)), v), (Writel (Int_status (control ?bus)) v, a0),
        (Writel (Tx_fifo (control ?bus)) (header1 C ?bus 1), a1),
        (Writel (Tx_fifo (control ?bus)) (header2 C ?ti), a2),
        (Writel (Tx_fifo (control ?bus)) (header3 C ?ti), a3)] @ body @ tail"
    unfolding 1 snd_conv W using t1 unfolding tr by (rule new_events_append)
  have "tx_words (control ?bus) (new_events s (snd (tegra_i2c_probe C hw n chip reg_addr s))) =
          [header1 C ?bus 1, push_bit (PKT_HDR2_PAYLOAD_SIZE_SHIFT C) 0,
           push_bit (PKT_HDR3_SLAVE_ADDR_SHIFT C) (push_bit 1 (ucast chip)), ?w]"
    unfolding ne using body t2 h2 h3 by (simp add: tx_words_Cons del: push_bit_of_0)
  with lo 1 show ?thesis by blast
qed

theorem tegra_i2c_probe_write_witness:
  "inited (i2c_controllers (init_sys () (\<lambda>a. 0) [sample_bus]) ! 0) \<noteq> 0 \<and>
   I2C_IS_WRITE sample_consts \<noteq> 0 \<and>
   fst (tegra_i2c_probe sample_consts (const_hw 0x80 0x80 0) 0 0x50 0x3000
          (init_sys () (\<lambda>a. 0) [sample_bus])) = 0 \<and>
   (\<exists>w. tx_words (control sample_bus)
          (new_events (init_sys () (\<lambda>a. 0) [sample_bus])
             (snd (tegra_i2c_probe sample_consts (const_hw 0x80 0x80 0) 0 0x50 0x3000
                     (init_sys () (\<lambda>a. 0) [sample_bus])))) = [0x10010, 0, 0xA0, w] \<and>
        (ucast w :: u8) = 0)"
proof -
  let ?s0 = "init_sys () (\<lambda>a. 0) [sample_bus] :: unit sys"
  have b: "i2c_controllers ?s0 ! 0 = sample_bus" by (simp add: init_sys_def)
  have i: "inited (i2c_controllers ?s0 ! 0) \<noteq> 0" unfolding b by (simp add: sample_bus_def)
  have w: "I2C_IS_WRITE sample_consts \<noteq> 0" by (simp add: sample_consts_def)
  have ok: "fst (i2c_write_data sample_consts (const_hw 0x80 0x80 0) sample_bus 0x50 0x3000 1
                   (?s0\<lparr>ram := (ram ?s0)(0x3000 := 0)\<rparr>)) = 0"
    by code_simp
  have h: "header1 sample_consts sample_bus 1 = 0x10010"
    "push_bit (PKT_HDR2_PAYLOAD_SIZE_SHIFT sample_consts) (0 :: u32) = 0"
    "push_bit (PKT_HDR3_SLAVE_ADDR_SHIFT sample_consts) (push_bit 1 (ucast (0x50 :: u8)) :: u32) = 0xA0"
    by (simp_all add: header1_def sample_consts_def sample_bus_def)
  from tegra_i2c_probe_write [OF i w, of "const_hw 0x80 0x80 0" "0x50" "0x3000"] ok i w
  show ?thesis unfolding b h by auto
qed

text \<open>
  C6 as the code has it. On a bus whose \<open>inited\<close> flag is 0, read, write and probe
  return 1 and \<^verbatim>\<open>tegra_i2c_set_bus_speed\<close> returns 0, and none of them touches a
  register, the memory or the table of buses: the state after the call is the state
  before it.
\<close>

theorem uninitialised_bus_untouched:
  assumes "inited (i2c_controllers s ! n) = 0"
  shows "tegra_i2c_read C hw n chip addr alen buffer len data s = (1, s) \<and>
         tegra_i2c_write C hw n chip addr alen buffer len data s = (1, s) \<and>
         tegra_i2c_probe C hw n chip reg_addr s = (1, s) \<and>
         tegra_i2c_set_bus_speed C hw n spd s = (0, s)"
  using assms
  by (simp add: tegra_i2c_read_def tegra_i2c_write_def tegra_i2c_probe_def
      tegra_i2c_set_bus_speed_def tegra_i2c_get_bus_def)

theorem uninitialised_bus_untouched_witness:
  "inited (i2c_controllers (init_sys () (\<lambda>a. 0) [sample_bus\<lparr>inited := 0\<rparr>]) ! 0) = 0 \<and>
   fst (tegra_i2c_probe sample_consts (const_hw 0x80 0x80 0) 0 0x50 0x3000
          (init_sys () (\<lambda>a. 0) [sample_bus\<lparr>inited := 0\<rparr>])) = 1 \<and>
   trace (snd (tegra_i2c_probe sample_consts (const_hw 0x80 0x80 0) 0 0x50 0x3000
          (init_sys () (\<lambda>a. 0) [sample_bus\<lparr>inited := 0\<rparr>]))) = []"
proof -
  let ?s0 = "init_sys () (\<lambda>a. 0) [sample_bus\<lparr>inited := 0\<rparr>] :: unit sys"
  have i: "inited (i2c_controllers ?s0 ! 0) = 0" by (simp add: init_sys_def)
  have t: "trace ?s0 = []" by (simp add: init_sys_def)
  from uninitialised_bus_untouched [OF i, of sample_consts "const_hw 0x80 0x80 0" "0x50"
      0 0 0 0 0 "0x3000" 0] i t
  show ?thesis by simp
qed

text \<open>
  C6 as the claim states it fails for \<^verbatim>\<open>tegra_i2c_set_bus_speed\<close>: on a bus that is not
  initialised it returns 0, the value it returns on an initialised bus too.
\<close>

theorem uninitialised_set_bus_speed_counterexample:
  "inited (i2c_controllers (init_sys () (\<lambda>a. 0) [sample_bus\<lparr>inited := 0\<rparr>]) ! 0) = 0 \<and>
   fst (tegra_i2c_set_bus_speed sample_consts (const_hw 0 0 0) 0 100000
          (init_sys () (\<lambda>a. 0) [sample_bus\<lparr>inited := 0\<rparr>])) = 0 \<and>
   inited (i2c_controllers (init_sys () (\<lambda>a. 0) [sample_bus]) ! 0) \<noteq> 0 \<and>
   fst (tegra_i2c_set_bus_speed sample_consts (const_hw 0 0 0) 0 100000
          (init_sys () (\<lambda>a. 0) [sample_bus])) = 0"
  by (simp add: tegra_i2c_set_bus_speed_def tegra_i2c_get_bus_def init_sys_def sample_bus_def
      Let_def)

subsection \<open>Runs on the test doubles\<close>

lemma snapshot_const_hw:
  "snapshot (const_hw fs ist rx) (Int_status c) k s = ist"
  "snapshot (const_hw fs ist rx) (Fifo_status c) k s = fs"
  by (simp_all add: snapshot_def readl_def io_simps)








subsection \<open>Bytes of a sequence of words\<close>


lemma length_concat_bytes [simp]: "length (concat (map bytes_of_word ws)) = 4 * length ws"
  by (induction ws) simp_all


lemma load_bytes_add:
  "load_bytes m p (a + b) = load_bytes m p a @ load_bytes m (p + of_nat a) b"
proof (rule nth_equalityI)
  show "length (load_bytes m p (a + b)) = length (load_bytes m p a @ load_bytes m (p + of_nat a) b)"
    by simp
next
  fix i assume "i < length (load_bytes m p (a + b))"
  then have i: "i < a + b" by simp
  show "load_bytes m p (a + b) ! i = (load_bytes m p a @ load_bytes m (p + of_nat a) b) ! i"
  proof (cases "i < a")
    case True
    with i show ?thesis by (simp add: nth_append nth_load_bytes)
  next
    case False
    then have "i - a < b" "(of_nat a :: u32) + of_nat (i - a) = of_nat i"
      using i by (simp_all flip: of_nat_add)
    with False i show ?thesis by (simp add: nth_append nth_load_bytes add.assoc)
  qed
qed

lemma concat_payload_words:
  "concat (map bytes_of_word (payload_words m p n)) = load_bytes m p (4 * n)"
proof (induction n arbitrary: p)
  case 0
  then show ?case by (simp add: load_bytes_def)
next
  case (Suc n)
  have "load_bytes m p (4 * Suc n) = load_bytes m p 4 @ load_bytes m (p + 4) (4 * n)"
    using load_bytes_add [of m p 4 "4 * n"] by simp
  with Suc.IH [of "p + 4"] show ?case
    by (simp add: payload_words_Suc bytes_of_word_of_bytes)
qed

lemma take_load_bytes: "a \<le> b \<Longrightarrow> take a (load_bytes m p b) = load_bytes m p a"
  by (simp add: load_bytes_def take_map)


lemma length_payload_words [simp]: "length (payload_words m p n) = n"
  by (simp add: payload_words_def)


subsection \<open>One round of the word loop\<close>

lemma word_loop_0: "word_loop C hw ctl w lb 0 dptr s = (0, s)"
  by (simp add: word_loop.simps [of C hw ctl w lb 0 dptr s])

lemma word_loop_write_step:
  assumes "words \<noteq> 0" and "w \<noteq> 0"
  shows "word_loop C hw ctl w lb words dptr s =
     (if fst (wait_for_tx_fifo_empty C hw ctl (writel hw (load32 (ram s) dptr) (Tx_fifo ctl) s)) = 0
      then (- 1, snd (wait_for_tx_fifo_empty C hw ctl
                        (writel hw (load32 (ram s) dptr) (Tx_fifo ctl) s)))
      else word_loop C hw ctl w lb (words - 1) (dptr + 4)
             (snd (wait_for_tx_fifo_empty C hw ctl
                     (writel hw (load32 (ram s) dptr) (Tx_fifo ctl) s))))"
  using assms
  by (simp add: word_loop.simps [of C hw ctl w lb words dptr s] memcpy_to_local_def load32_def
      split: prod.splits)

lemma word_loop_read_step:
  assumes "words \<noteq> 0"
  shows "word_loop C hw ctl 0 lb words dptr s =
     (if fst (wait_for_rx_fifo_notempty C hw ctl s) = 0
      then (- 1, snd (wait_for_rx_fifo_notempty C hw ctl s))
      else word_loop C hw ctl 0 lb (words - 1) (dptr + 4)
             ((snd (readl hw (Rx_fifo ctl) (snd (wait_for_rx_fifo_notempty C hw ctl s))))
                \<lparr>ram := store_bytes
                    (ram (snd (readl hw (Rx_fifo ctl) (snd (wait_for_rx_fifo_notempty C hw ctl s)))))
                    dptr
                    (take (if words = 1 \<and> lb \<noteq> 0 then unat lb else 4)
                       (bytes_of_word
                          (fst (readl hw (Rx_fifo ctl)
                                  (snd (wait_for_rx_fifo_notempty C hw ctl s))))))\<rparr>))"
  using assms
  by (simp add: word_loop.simps [of C hw ctl 0 lb words dptr s] memcpy_from_local_def store32_def
      split: prod.splits)

subsection \<open>A FIFO that is ready at the first look\<close>





lemma send_recv_packets_unfold:
  "send_recv_packets C hw bus tinfo s =
     (case word_loop C hw (control bus) (flags tinfo AND I2C_IS_WRITE C)
             (ucast (num_bytes tinfo AND 3)) (DIV_ROUND_UP (num_bytes tinfo) 4) (buf tinfo)
             (transfer_start C hw bus tinfo s) of
        (e, s4) \<Rightarrow>
          if e \<noteq> 0 then (e, i2c_reset_controller C hw bus s4)
          else if fst (wait_for_transfer_complete C hw (control bus) s4) \<noteq> 0
               then (- 1, i2c_reset_controller C hw bus
                            (snd (wait_for_transfer_complete C hw (control bus) s4)))
               else (0, snd (wait_for_transfer_complete C hw (control bus) s4)))"
  by (simp add: send_recv_packets_def transfer_start_def Let_def split: prod.splits)

lemma transfer_start_events:
  "\<exists>pre. trace (transfer_start C hw bus tinfo s) = trace s @ pre \<and>
      tx_words (control bus) pre = [header1 C bus 1, header2 C tinfo, header3 C tinfo] \<and>
      rx_words (control bus) pre = []"
proof -
  obtain v s1 where rd: "readl hw (Int_status (control bus)) s = (v, s1)" by force
  note rs = readl_D [OF rd]
  let ?s2 = "writel hw v (Int_status (control bus)) s1"
  from send_packet_headers_trace [of C hw bus tinfo 1 ?s2] obtain a1 a2 a3 where
    h: "trace (send_packet_headers C hw bus tinfo 1 ?s2) =
          trace ?s2 @ [(Writel (Tx_fifo (control bus)) (header1 C bus 1), a1),
                 (Writel (Tx_fifo (control bus)) (header2 C tinfo), a2),
                 (Writel (Tx_fifo (control bus)) (header3 C tinfo), a3)]"
    by blast
  show ?thesis
    unfolding transfer_start_def rd prod.case h
    by (simp add: writel_simps rs tx_words_Cons rx_words_Cons)
qed

lemma transfer_start_state:
  "ram (transfer_start C hw bus tinfo s) = ram s"
  "i2c_controllers (transfer_start C hw bus tinfo s) = i2c_controllers s"
proof -
  obtain v s1 where rd: "readl hw (Int_status (control bus)) s = (v, s1)" by force
  note rs = readl_D [OF rd]
  show "ram (transfer_start C hw bus tinfo s) = ram s"
    "i2c_controllers (transfer_start C hw bus tinfo s) = i2c_controllers s"
    unfolding transfer_start_def rd prod.case
    by (simp_all add: send_packet_headers_state writel_simps rs)
qed

text \<open>What follows the word loop touches neither FIFO and no memory.\<close>

lemma send_recv_packets_after_loop:
  assumes "word_loop C hw (control bus) (flags tinfo AND I2C_IS_WRITE C)
             (ucast (num_bytes tinfo AND 3)) (DIV_ROUND_UP (num_bytes tinfo) 4) (buf tinfo)
             (transfer_start C hw bus tinfo s) = (e, s4)"
  shows "\<exists>rest. trace (snd (send_recv_packets C hw bus tinfo s)) = trace s4 @ rest \<and>
      tx_words (control bus) rest = [] \<and> rx_words (control bus) rest = [] \<and>
      ram (snd (send_recv_packets C hw bus tinfo s)) = ram s4"
proof -
  let ?ctl = "control bus"
  obtain x s5 where wt: "wait_for_transfer_complete C hw ?ctl s4 = (x, s5)" by force
  from wait_for_transfer_complete_trace [OF wt, of ?ctl] obtain pevs where p:
    "trace s5 = trace s4 @ pevs" "tx_words ?ctl pevs = []" "rx_words ?ctl pevs = []"
    "ram s5 = ram s4"
    by blast
  have rq: "\<exists>revs. trace (i2c_reset_controller C hw bus t) = trace t @ revs \<and>
      tx_words ?ctl revs = [] \<and> rx_words ?ctl revs = []" for t
  proof -
    from i2c_reset_controller_trace [of C hw bus t] obtain revs sl where rv:
      "trace (i2c_reset_controller C hw bus t) = trace t @ revs"
      "map fst revs = recovery_actions C bus sl" by blast
    from rv(1) recovery_quiet [OF rv(2), of ?ctl] show ?thesis by blast
  qed
  from rq [of s4] obtain r4 where r4:
    "trace (i2c_reset_controller C hw bus s4) = trace s4 @ r4"
    "tx_words ?ctl r4 = []" "rx_words ?ctl r4 = []" by blast
  from rq [of s5] obtain r5 where r5:
    "trace (i2c_reset_controller C hw bus s5) = trace s5 @ r5"
    "tx_words ?ctl r5 = []" "rx_words ?ctl r5 = []" by blast
  consider (loop) "e \<noteq> 0" | (poll) "e = 0" "x \<noteq> 0" | (ok) "e = 0" "x = 0" by blast
  then show ?thesis
  proof cases
    case loop
    then have "snd (send_recv_packets C hw bus tinfo s) = i2c_reset_controller C hw bus s4"
      by (simp add: send_recv_packets_unfold assms)
    with r4 show ?thesis by (simp add: i2c_reset_controller_state)
  next
    case poll
    then have "snd (send_recv_packets C hw bus tinfo s) = i2c_reset_controller C hw bus s5"
      by (simp add: send_recv_packets_unfold assms wt)
    with r5 p show ?thesis by (simp add: i2c_reset_controller_state)
  next
    case ok
    then have "snd (send_recv_packets C hw bus tinfo s) = s5"
      by (simp add: send_recv_packets_unfold assms wt)
    with p show ?thesis by simp
  qed
qed

lemma send_recv_packets_words:
  assumes "word_loop C hw (control bus) (flags tinfo AND I2C_IS_WRITE C)
             (ucast (num_bytes tinfo AND 3)) (DIV_ROUND_UP (num_bytes tinfo) 4) (buf tinfo)
             (transfer_start C hw bus tinfo s) = (e, s4)"
    and "trace s4 = trace (transfer_start C hw bus tinfo s) @ levs"
  shows "tx_words (control bus) (new_events s (snd (send_recv_packets C hw bus tinfo s))) =
           [header1 C bus 1, header2 C tinfo, header3 C tinfo] @ tx_words (control bus) levs"
    and "rx_words (control bus) (new_events s (snd (send_recv_packets C hw bus tinfo s))) =
           rx_words (control bus) levs"
proof -
  from transfer_start_events [of C hw bus tinfo s] obtain pre where pre:
    "trace (transfer_start C hw bus tinfo s) = trace s @ pre"
    "tx_words (control bus) pre = [header1 C bus 1, header2 C tinfo, header3 C tinfo]"
    "rx_words (control bus) pre = []" by blast
  from send_recv_packets_after_loop [OF assms(1)] obtain rest where rest:
    "trace (snd (send_recv_packets C hw bus tinfo s)) = trace s4 @ rest"
    "tx_words (control bus) rest = []" "rx_words (control bus) rest = []" by blast
  have "trace (snd (send_recv_packets C hw bus tinfo s)) = trace s @ (pre @ levs @ rest)"
    using rest(1) assms(2) pre(1) by simp
  note ne = new_events_append [OF this]
  show "tx_words (control bus) (new_events s (snd (send_recv_packets C hw bus tinfo s))) =
           [header1 C bus 1, header2 C tinfo, header3 C tinfo] @ tx_words (control bus) levs"
    unfolding ne using pre(2) rest(2) by simp
  show "rx_words (control bus) (new_events s (snd (send_recv_packets C hw bus tinfo s))) =
           rx_words (control bus) levs"
    unfolding ne using pre(3) rest(3) by simp
qed

subsection \<open>The first rounds of the word loop\<close>

lemma unat_of_nat_u32: "j < unat (words :: u32) \<Longrightarrow> unat (of_nat j :: u32) = j"
proof -
  assume a: "j < unat words"
  have "unat words < 2 ^ 32" using unsigned_less [of words, where 'a = nat] by simp
  with a have "j < 2 ^ 32" by simp
  then show ?thesis by (simp add: unat_of_nat take_bit_nat_eq_self)
qed

lemma word_loop_read_step_full:
  assumes "words \<noteq> 0" and "words \<noteq> 1 \<or> lb = 0"
  shows "word_loop C hw ctl 0 lb words dptr s =
     (if fst (wait_for_rx_fifo_notempty C hw ctl s) = 0
      then (- 1, snd (wait_for_rx_fifo_notempty C hw ctl s))
      else word_loop C hw ctl 0 lb (words - 1) (dptr + 4)
             ((snd (readl hw (Rx_fifo ctl) (snd (wait_for_rx_fifo_notempty C hw ctl s))))
                \<lparr>ram := store_bytes
                    (ram (snd (readl hw (Rx_fifo ctl) (snd (wait_for_rx_fifo_notempty C hw ctl s)))))
                    dptr
                    (bytes_of_word
                       (fst (readl hw (Rx_fifo ctl)
                               (snd (wait_for_rx_fifo_notempty C hw ctl s)))))\<rparr>))"
  unfolding word_loop_read_step [OF assms(1)] using assms(2) by auto

lemma word_loop_prefix:
  "word_loop C hw ctl w 0 (of_nat j) dptr s = (0, sj) \<Longrightarrow> j < unat words \<Longrightarrow>
   word_loop C hw ctl w lb words dptr s =
     word_loop C hw ctl w lb (words - of_nat j) (dptr + 4 * of_nat j) sj"
proof (induction j arbitrary: words dptr s)
  case 0
  then show ?case by (simp add: word_loop_0)
next
  case (Suc j)
  let ?n = "of_nat (Suc j) :: u32"
  have u: "unat ?n = Suc j" using Suc.prems(2) by (rule unat_of_nat_u32)
  have n0: "?n \<noteq> 0" using u by (metis unat_0 nat.distinct(1))
  have n1: "?n - 1 = of_nat j" by simp
  have w0: "words \<noteq> 0" using Suc.prems(2) by (metis unat_0 not_less0)
  have w1: "words \<noteq> 1" using Suc.prems(2) by (metis unat_1 One_nat_def Suc_less_eq not_less0)
  have jw: "j < unat (words - 1)" using Suc.prems(2) w0 by (simp add: unat_pred_word)
  have a1: "words - 1 - of_nat j = words - ?n" by simp
  have a2: "dptr + 4 + 4 * of_nat j = dptr + 4 * ?n" by (simp add: algebra_simps)
  have m1: "(- 1 :: s32) \<noteq> 0" by simp
  show ?case
  proof (cases "w = 0")
    case False
    let ?p = "wait_for_tx_fifo_empty C hw ctl (writel hw (load32 (ram s) dptr) (Tx_fifo ctl) s)"
    from Suc.prems(1) have
      "(if fst ?p = 0 then (- 1, snd ?p)
        else word_loop C hw ctl w 0 (?n - 1) (dptr + 4) (snd ?p)) = (0, sj)"
      unfolding word_loop_write_step [OF n0 False] .
    then have ok: "fst ?p \<noteq> 0"
      and r: "word_loop C hw ctl w 0 (of_nat j) (dptr + 4) (snd ?p) = (0, sj)"
      unfolding n1 using m1 by (auto split: if_splits)
    have "word_loop C hw ctl w lb words dptr s =
            word_loop C hw ctl w lb (words - 1) (dptr + 4) (snd ?p)"
      unfolding word_loop_write_step [OF w0 False, of C hw ctl lb dptr s] using ok by simp
    also have "\<dots> = word_loop C hw ctl w lb (words - 1 - of_nat j) (dptr + 4 + 4 * of_nat j) sj"
      by (rule Suc.IH [OF r jw])
    finally show ?thesis unfolding a1 a2 .
  next
    case True
    let ?p = "wait_for_rx_fifo_notempty C hw ctl s"
    let ?rd = "readl hw (Rx_fifo ctl) (snd ?p)"
    let ?s2 = "(snd ?rd)\<lparr>ram := store_bytes (ram (snd ?rd)) dptr (bytes_of_word (fst ?rd))\<rparr>"
    have z: "?n \<noteq> 1 \<or> (0 :: u8) = 0" by simp
    from Suc.prems(1) have
      "(if fst ?p = 0 then (- 1, snd ?p)
        else word_loop C hw ctl 0 0 (?n - 1) (dptr + 4) ?s2) = (0, sj)"
      unfolding True word_loop_read_step_full [OF n0 z] .
    then have ok: "fst ?p \<noteq> 0"
      and r: "word_loop C hw ctl 0 0 (of_nat j) (dptr + 4) ?s2 = (0, sj)"
      unfolding n1 using m1 by (auto split: if_splits)
    have "word_loop C hw ctl 0 lb words dptr s =
            word_loop C hw ctl 0 lb (words - 1) (dptr + 4) ?s2"
      unfolding word_loop_read_step_full [OF w0 disjI1 [OF w1], of C hw ctl lb dptr s]
      using ok by simp
    also have "\<dots> = word_loop C hw ctl 0 lb (words - 1 - of_nat j) (dptr + 4 + 4 * of_nat j) sj"
      using r jw by (rule Suc.IH [unfolded True])
    finally show ?thesis unfolding a1 a2 True .
  qed
qed

text \<open>A poll that fails in round \<open>j\<close> (counted from 0) ends the loop there.\<close>

lemma word_loop_tx_abort:
  assumes "w \<noteq> 0" and "j < unat words"
    and "word_loop C hw ctl w 0 (of_nat j) dptr s = (0, sj)"
    and "fst (wait_for_tx_fifo_empty C hw ctl
                (writel hw (load32 (ram sj) (dptr + 4 * of_nat j)) (Tx_fifo ctl) sj)) = 0"
  shows "word_loop C hw ctl w lb words dptr s =
           (- 1, snd (wait_for_tx_fifo_empty C hw ctl
                (writel hw (load32 (ram sj) (dptr + 4 * of_nat j)) (Tx_fifo ctl) sj)))"
proof -
  have "unat (words - of_nat j) = unat words - j"
    using assms(2) unat_of_nat_u32 [OF assms(2)] by (simp add: unat_sub word_le_nat_alt)
  then have nz: "words - of_nat j \<noteq> 0" using assms(2) by (metis unat_0 zero_less_diff less_irrefl)
  show ?thesis
    unfolding word_loop_prefix [OF assms(3,2), of lb]
      word_loop_write_step [OF nz assms(1)] using assms(4) by simp
qed

lemma word_loop_rx_abort:
  assumes "j < unat words"
    and "word_loop C hw ctl 0 0 (of_nat j) dptr s = (0, sj)"
    and "fst (wait_for_rx_fifo_notempty C hw ctl sj) = 0"
  shows "word_loop C hw ctl 0 lb words dptr s =
           (- 1, snd (wait_for_rx_fifo_notempty C hw ctl sj))"
proof -
  have "unat (words - of_nat j) = unat words - j"
    using assms(1) unat_of_nat_u32 [OF assms(1)] by (simp add: unat_sub word_le_nat_alt)
  then have nz: "words - of_nat j \<noteq> 0" using assms(1) by (metis unat_0 zero_less_diff less_irrefl)
  show ?thesis
    unfolding word_loop_prefix [OF assms(2,1), of lb]
      word_loop_read_step [OF nz] using assms(3) by simp
qed

lemma payload_words_snoc:
  "payload_words m p (Suc j) = payload_words m p j @ [load32 m (p + 4 * of_nat j)]"
  by (simp add: payload_words_def load32_def)

lemma word_loop_tx_abort_events:
  assumes "w \<noteq> 0" and "j < unat (words :: u32)"
    and "word_loop C hw ctl w 0 (of_nat j) dptr s = (0, sj)"
  shows "\<exists>levs. trace (snd (wait_for_tx_fifo_empty C hw ctl
                (writel hw (load32 (ram sj) (dptr + 4 * of_nat j)) (Tx_fifo ctl) sj))) =
                 trace s @ levs \<and>
           tx_words ctl levs = payload_words (ram s) dptr (Suc j) \<and> rx_words ctl levs = []"
proof -
  let ?s1 = "writel hw (load32 (ram sj) (dptr + 4 * of_nat j)) (Tx_fifo ctl) sj"
  from word_loop_write [OF assms(3,1)] obtain evs n where e:
    "ram sj = ram s" "trace sj = trace s @ evs" "rx_words ctl evs = []"
    "n = unat (of_nat j :: u32)" "tx_words ctl evs = payload_words (ram s) dptr n"
    by blast
  have n: "n = j" using e(4) unat_of_nat_u32 [OF assms(2)] by simp
  obtain ok sf where wt: "wait_for_tx_fifo_empty C hw ctl ?s1 = (ok, sf)" by force
  from wait_for_tx_fifo_empty_trace [OF wt, of ctl] obtain pevs where p:
    "trace sf = trace ?s1 @ pevs" "tx_words ctl pevs = []" "rx_words ctl pevs = []"
    by blast
  let ?levs = "evs @ (Writel (Tx_fifo ctl) (load32 (ram s) (dptr + 4 * of_nat j)),
                        fst (hw (Writel (Tx_fifo ctl) (load32 (ram s) (dptr + 4 * of_nat j))) (dev sj)))
                 # pevs"
  have "trace sf = trace s @ ?levs" using p(1) e(1,2) by (simp add: writel_simps)
  moreover have "tx_words ctl ?levs = payload_words (ram s) dptr (Suc j)"
    using e(5) p(2) n by (simp add: tx_words_Cons payload_words_snoc)
  moreover have "rx_words ctl ?levs = []" using e(3) p(3) by (simp add: rx_words_Cons)
  ultimately show ?thesis unfolding wt snd_conv by blast
qed

lemma word_loop_rx_abort_events:
  assumes "j < unat (words :: u32)"
    and "word_loop C hw ctl 0 0 (of_nat j) dptr s = (0, sj)"
  shows "\<exists>levs. trace (snd (wait_for_rx_fifo_notempty C hw ctl sj)) = trace s @ levs \<and>
           tx_words ctl levs = [] \<and> length (rx_words ctl levs) = j \<and>
           ram (snd (wait_for_rx_fifo_notempty C hw ctl sj)) =
             store_bytes (ram s) dptr (concat (map bytes_of_word (rx_words ctl levs)))"
proof -
  from word_loop_read [OF assms(2)] obtain evs where e:
    "trace sj = trace s @ evs" "tx_words ctl evs = []"
    "length (rx_words ctl evs) = unat (of_nat j :: u32)"
    "ram sj = store_bytes (ram s) dptr
                  (take (read_bytes 0 (of_nat j)) (concat (map bytes_of_word (rx_words ctl evs))))"
    by blast
  have n: "length (rx_words ctl evs) = j" using e(3) unat_of_nat_u32 [OF assms(1)] by simp
  have "length (concat (map bytes_of_word (rx_words ctl evs))) = 4 * j"
    using n by simp
  then have tk: "take (read_bytes 0 (of_nat j)) (concat (map bytes_of_word (rx_words ctl evs)))
                   = concat (map bytes_of_word (rx_words ctl evs))"
    using unat_of_nat_u32 [OF assms(1)] by (simp add: read_bytes_def)
  obtain ok sf where wt: "wait_for_rx_fifo_notempty C hw ctl sj = (ok, sf)" by force
  from wait_for_rx_fifo_notempty_trace [OF wt, of ctl] obtain pevs where p:
    "trace sf = trace sj @ pevs" "tx_words ctl pevs = []" "rx_words ctl pevs = []"
    "ram sf = ram sj"
    by blast
  have "trace sf = trace s @ (evs @ pevs)" using p(1) e(1) by simp
  moreover have "tx_words ctl (evs @ pevs) = []" using e(2) p(2) by simp
  moreover have "length (rx_words ctl (evs @ pevs)) = j" using n p(3) by simp
  moreover have "ram sf = store_bytes (ram s) dptr
       (concat (map bytes_of_word (rx_words ctl (evs @ pevs))))"
    using p(3,4) e(4) tk by simp
  ultimately show ?thesis unfolding wt snd_conv by blast
qed

subsection \<open>A failing poll at the level of the transfer\<close>

lemma send_recv_packets_tx_abort:
  assumes "flags tinfo AND I2C_IS_WRITE C \<noteq> 0"
    and "j < (unat (num_bytes tinfo) + 3) div 4"
    and "word_loop C hw (control bus) (flags tinfo AND I2C_IS_WRITE C) 0 (of_nat j) (buf tinfo)
           (transfer_start C hw bus tinfo s) = (0, sj)"
    and "wait_for_tx_fifo_empty C hw (control bus)
           (writel hw (load32 (ram sj) (buf tinfo + 4 * of_nat j)) (Tx_fifo (control bus)) sj)
         = (0, sf)"
  shows "send_recv_packets C hw bus tinfo s = (- 1, i2c_reset_controller C hw bus sf)"
    and "tx_words (control bus) (new_events s (i2c_reset_controller C hw bus sf)) =
           [header1 C bus 1, header2 C tinfo, header3 C tinfo]
             @ payload_words (ram s) (buf tinfo) (Suc j)"
    and "rx_words (control bus) (new_events s (i2c_reset_controller C hw bus sf)) = []"
proof -
  let ?ctl = "control bus"
  let ?w = "flags tinfo AND I2C_IS_WRITE C"
  let ?s3 = "transfer_start C hw bus tinfo s"
  have j: "j < unat (DIV_ROUND_UP (num_bytes tinfo) 4)"
    using assms(2) by (simp add: unat_DIV_ROUND_UP_4)
  have f: "fst (wait_for_tx_fifo_empty C hw ?ctl
           (writel hw (load32 (ram sj) (buf tinfo + 4 * of_nat j)) (Tx_fifo ?ctl) sj)) = 0"
    using assms(4) by simp
  have wl: "word_loop C hw ?ctl ?w (ucast (num_bytes tinfo AND 3))
              (DIV_ROUND_UP (num_bytes tinfo) 4) (buf tinfo) ?s3 = (- 1, sf)"
    using word_loop_tx_abort [OF assms(1) j assms(3) f] assms(4) by simp
  show r: "send_recv_packets C hw bus tinfo s = (- 1, i2c_reset_controller C hw bus sf)"
    by (simp add: send_recv_packets_unfold wl)
  from word_loop_tx_abort_events [OF assms(1) j assms(3)] obtain levs where l:
    "trace sf = trace ?s3 @ levs"
    "tx_words ?ctl levs = payload_words (ram ?s3) (buf tinfo) (Suc j)"
    "rx_words ?ctl levs = []"
    unfolding assms(4) snd_conv by blast
  from send_recv_packets_words [OF wl l(1)] l(2,3)
  show "tx_words ?ctl (new_events s (i2c_reset_controller C hw bus sf)) =
           [header1 C bus 1, header2 C tinfo, header3 C tinfo]
             @ payload_words (ram s) (buf tinfo) (Suc j)"
    and "rx_words ?ctl (new_events s (i2c_reset_controller C hw bus sf)) = []"
    unfolding r snd_conv by (simp_all add: transfer_start_state)
qed

lemma send_recv_packets_rx_abort:
  assumes "flags tinfo AND I2C_IS_WRITE C = 0"
    and "j < (unat (num_bytes tinfo) + 3) div 4"
    and "word_loop C hw (control bus) (flags tinfo AND I2C_IS_WRITE C) 0 (of_nat j) (buf tinfo)
           (transfer_start C hw bus tinfo s) = (0, sj)"
    and "wait_for_rx_fifo_notempty C hw (control bus) sj = (0, sf)"
  shows "send_recv_packets C hw bus tinfo s = (- 1, i2c_reset_controller C hw bus sf)"
    and "tx_words (control bus) (new_events s (i2c_reset_controller C hw bus sf)) =
           [header1 C bus 1, header2 C tinfo, header3 C tinfo]"
    and "length (rx_words (control bus) (new_events s (i2c_reset_controller C hw bus sf))) = j"
    and "ram (i2c_reset_controller C hw bus sf) =
           store_bytes (ram s) (buf tinfo)
             (concat (map bytes_of_word
                (rx_words (control bus) (new_events s (i2c_reset_controller C hw bus sf)))))"
proof -
  let ?ctl = "control bus"
  let ?s3 = "transfer_start C hw bus tinfo s"
  have j: "j < unat (DIV_ROUND_UP (num_bytes tinfo) 4)"
    using assms(2) by (simp add: unat_DIV_ROUND_UP_4)
  have p: "word_loop C hw ?ctl 0 0 (of_nat j) (buf tinfo) ?s3 = (0, sj)"
    using assms(3) unfolding assms(1) .
  have f: "fst (wait_for_rx_fifo_notempty C hw ?ctl sj) = 0" using assms(4) by simp
  have wl: "word_loop C hw ?ctl (flags tinfo AND I2C_IS_WRITE C) (ucast (num_bytes tinfo AND 3))
              (DIV_ROUND_UP (num_bytes tinfo) 4) (buf tinfo) ?s3 = (- 1, sf)"
    unfolding assms(1) using word_loop_rx_abort [OF j p f] assms(4) by simp
  show r: "send_recv_packets C hw bus tinfo s = (- 1, i2c_reset_controller C hw bus sf)"
    by (simp add: send_recv_packets_unfold wl)
  from word_loop_rx_abort_events [OF j p] obtain levs where l:
    "trace sf = trace ?s3 @ levs" "tx_words ?ctl levs = []" "length (rx_words ?ctl levs) = j"
    "ram sf = store_bytes (ram ?s3) (buf tinfo) (concat (map bytes_of_word (rx_words ?ctl levs)))"
    unfolding assms(4) snd_conv by blast
  note w = send_recv_packets_words [OF wl l(1), unfolded r snd_conv]
  show "tx_words ?ctl (new_events s (i2c_reset_controller C hw bus sf)) =
           [header1 C bus 1, header2 C tinfo, header3 C tinfo]"
    using w(1) l(2) by simp
  show "length (rx_words ?ctl (new_events s (i2c_reset_controller C hw bus sf))) = j"
    using w(2) l(3) by simp
  show "ram (i2c_reset_controller C hw bus sf) =
           store_bytes (ram s) (buf tinfo)
             (concat (map bytes_of_word
                (rx_words ?ctl (new_events s (i2c_reset_controller C hw bus sf)))))"
    unfolding w(2) using l(4) by (simp add: i2c_reset_controller_state transfer_start_state)
qed

text \<open>The word loop that ran to its end has moved every word.\<close>

lemma send_recv_packets_loop_done:
  assumes "word_loop C hw (control bus) (flags tinfo AND I2C_IS_WRITE C)
             (ucast (num_bytes tinfo AND 3)) (DIV_ROUND_UP (num_bytes tinfo) 4) (buf tinfo)
             (transfer_start C hw bus tinfo s) = (0, s4)"
  shows "flags tinfo AND I2C_IS_WRITE C \<noteq> 0 \<longrightarrow>
           tx_words (control bus) (new_events s (snd (send_recv_packets C hw bus tinfo s))) =
             [header1 C bus 1, header2 C tinfo, header3 C tinfo]
               @ payload_words (ram s) (buf tinfo) ((unat (num_bytes tinfo) + 3) div 4) \<and>
           rx_words (control bus) (new_events s (snd (send_recv_packets C hw bus tinfo s))) = []"
    and "flags tinfo AND I2C_IS_WRITE C = 0 \<longrightarrow>
           tx_words (control bus) (new_events s (snd (send_recv_packets C hw bus tinfo s))) =
             [header1 C bus 1, header2 C tinfo, header3 C tinfo] \<and>
           length (rx_words (control bus) (new_events s (snd (send_recv_packets C hw bus tinfo s))))
             = (unat (num_bytes tinfo) + 3) div 4"
proof -
  let ?ctl = "control bus"
  let ?s3 = "transfer_start C hw bus tinfo s"
  from word_loop_summary [OF assms] obtain levs where l:
    "trace s4 = trace ?s3 @ levs"
    "flags tinfo AND I2C_IS_WRITE C \<noteq> 0 \<longrightarrow> rx_words ?ctl levs = [] \<and>
        (\<exists>n. (0 = (0 :: s32) \<longrightarrow> n = unat (DIV_ROUND_UP (num_bytes tinfo) 4)) \<and>
             tx_words ?ctl levs = payload_words (ram ?s3) (buf tinfo) n)"
    "flags tinfo AND I2C_IS_WRITE C = 0 \<longrightarrow> tx_words ?ctl levs = [] \<and>
        (0 = (0 :: s32) \<longrightarrow> length (rx_words ?ctl levs) = unat (DIV_ROUND_UP (num_bytes tinfo) 4))"
    by blast
  note w = send_recv_packets_words [OF assms l(1)]
  show "flags tinfo AND I2C_IS_WRITE C \<noteq> 0 \<longrightarrow>
           tx_words ?ctl (new_events s (snd (send_recv_packets C hw bus tinfo s))) =
             [header1 C bus 1, header2 C tinfo, header3 C tinfo]
               @ payload_words (ram s) (buf tinfo) ((unat (num_bytes tinfo) + 3) div 4) \<and>
           rx_words ?ctl (new_events s (snd (send_recv_packets C hw bus tinfo s))) = []"
    unfolding w using l(2) by (auto simp: unat_DIV_ROUND_UP_4 transfer_start_state)
  show "flags tinfo AND I2C_IS_WRITE C = 0 \<longrightarrow>
           tx_words ?ctl (new_events s (snd (send_recv_packets C hw bus tinfo s))) =
             [header1 C bus 1, header2 C tinfo, header3 C tinfo] \<and>
           length (rx_words ?ctl (new_events s (snd (send_recv_packets C hw bus tinfo s))))
             = (unat (num_bytes tinfo) + 3) div 4"
    unfolding w using l(3) by (auto simp: unat_DIV_ROUND_UP_4)
qed

lemma send_recv_packets_tc_abort:
  assumes "word_loop C hw (control bus) (flags tinfo AND I2C_IS_WRITE C)
             (ucast (num_bytes tinfo AND 3)) (DIV_ROUND_UP (num_bytes tinfo) 4) (buf tinfo)
             (transfer_start C hw bus tinfo s) = (0, s4)"
    and "wait_for_transfer_complete C hw (control bus) s4 = (x, sf)" and "x \<noteq> 0"
  shows "send_recv_packets C hw bus tinfo s = (- 1, i2c_reset_controller C hw bus sf)"
  by (simp add: send_recv_packets_unfold assms)

lemma send_recv_packets_success:
  assumes "word_loop C hw (control bus) (flags tinfo AND I2C_IS_WRITE C)
             (ucast (num_bytes tinfo AND 3)) (DIV_ROUND_UP (num_bytes tinfo) 4) (buf tinfo)
             (transfer_start C hw bus tinfo s) = (0, s4)"
    and "wait_for_transfer_complete C hw (control bus) s4 = (0, sf)"
  shows "send_recv_packets C hw bus tinfo s = (0, sf)"
  by (simp add: send_recv_packets_unfold assms)

subsection \<open>Polls on the test devices\<close>


lemma wait_for_rx_fifo_notempty_const_hw:
  "rx_notempty_decide C fs = None \<Longrightarrow>
     fst (wait_for_rx_fifo_notempty C (const_hw fs ist rx) ctl s) = 0"
  unfolding wait_for_rx_fifo_notempty_def rx_fifo_notempty_loop_poll
  by (subst poll_loop_decided) (simp add: snapshot_const_hw)

lemma dev_poll_state_stalling_hw:
  "dev (poll_state (stalling_hw k fs ist rx) (Fifo_status c) n s) = dev s + n"
proof (induction n arbitrary: s)
  case 0
  show ?case by (simp add: poll_state_def)
next
  case (Suc n)
  have "dev (poll_step (stalling_hw k fs ist rx) (Fifo_status c) s) = Suc (dev s)"
    by (simp add: poll_step_def udelay_def readl_def io_simps)
  then show ?case by (simp add: poll_state_Suc Suc.IH)
qed

lemma snapshot_stalling_hw:
  "k \<le> dev s \<Longrightarrow> snapshot (stalling_hw k fs ist rx) (Fifo_status c) n s = 0"
  by (simp add: snapshot_def readl_def io_simps dev_poll_state_stalling_hw)

lemma wait_for_tx_fifo_empty_stalled:
  "tx_empty_decide C 0 = None \<Longrightarrow> k \<le> dev s \<Longrightarrow>
     fst (wait_for_tx_fifo_empty C (stalling_hw k fs ist rx) ctl s) = 0"
  unfolding wait_for_tx_fifo_empty_def tx_fifo_empty_loop_poll
  by (subst poll_loop_decided) (simp add: snapshot_stalling_hw)

lemma wait_for_rx_fifo_notempty_stalled:
  "rx_notempty_decide C 0 = None \<Longrightarrow> k \<le> dev s \<Longrightarrow>
     fst (wait_for_rx_fifo_notempty C (stalling_hw k fs ist rx) ctl s) = 0"
  unfolding wait_for_rx_fifo_notempty_def rx_fifo_notempty_loop_poll
  by (subst poll_loop_decided) (simp add: snapshot_stalling_hw)

text \<open>Every nonzero return goes through the recovery path.\<close>

lemma send_recv_packets_nonzero:
  assumes "send_recv_packets C hw bus tinfo s = (rc, s')"
    and "rc \<noteq> 0" and "0 \<le> I2C_TIMEOUT_USEC C"
  shows "rc = - 1 \<and>
    (\<exists>before tail sl.
       new_events s s' = before @ tail \<and>
       map fst tail = recovery_actions C bus sl \<and>
       (is_dvc bus = 0 \<longrightarrow> (Readl (I2c_sl_cnfg (regs bus)), sl) \<in> set tail) \<and>
       tx_words (control bus) tail = [] \<and> rx_words (control bus) tail = [] \<and>
       before \<noteq> [] \<and>
       (fst (last before) = Udelay 10 \<or>
        (\<exists>x. last before = (Readl (Int_status (control bus)), x) \<and>
             (x AND I2C_INT_NO_ACK_MASK C \<noteq> 0 \<or>
              x AND I2C_INT_ARBITRATION_LOST_MASK C \<noteq> 0))) \<and>
       (flags tinfo AND I2C_IS_WRITE C \<noteq> 0 \<longrightarrow>
          rx_words (control bus) before = [] \<and>
          (\<exists>n. n \<le> (unat (num_bytes tinfo) + 3) div 4 \<and>
               tx_words (control bus) before =
                 [header1 C bus 1, header2 C tinfo, header3 C tinfo]
                   @ payload_words (ram s) (buf tinfo) n)) \<and>
       (flags tinfo AND I2C_IS_WRITE C = 0 \<longrightarrow>
          tx_words (control bus) before = [header1 C bus 1, header2 C tinfo, header3 C tinfo] \<and>
          length (rx_words (control bus) before) \<le> (unat (num_bytes tinfo) + 3) div 4))"
proof -
  let ?ctl = "control bus"
  let ?W = "(unat (num_bytes tinfo) + 3) div 4"
  from send_recv_packets_summary [OF assms(1)] obtain v a0 a1 a2 a3 body tail where
    t: "trace s' = trace s @
       [(Readl (Int_status ?ctl), v), (Writel (Int_status ?ctl) v, a0),
        (Writel (Tx_fifo ?ctl) (header1 C bus 1), a1),
        (Writel (Tx_fifo ?ctl) (header2 C tinfo), a2),
        (Writel (Tx_fifo ?ctl) (header3 C tinfo), a3)] @ body @ tail"
    and r: "rc = 0 \<or> rc = - 1"
    and q: "tx_words ?ctl tail = []" "rx_words ?ctl tail = []"
    and w: "flags tinfo AND I2C_IS_WRITE C \<noteq> 0 \<longrightarrow>
        ram s' = ram s \<and> rx_words ?ctl body = [] \<and>
        (\<exists>n. n \<le> ?W \<and> (rc = 0 \<longrightarrow> n = ?W) \<and> (num_bytes tinfo \<noteq> 0 \<longrightarrow> n \<noteq> 0) \<and>
             tx_words ?ctl body = payload_words (ram s) (buf tinfo) n)"
    and rd: "flags tinfo AND I2C_IS_WRITE C = 0 \<longrightarrow>
        tx_words ?ctl body = [] \<and> length (rx_words ?ctl body) \<le> ?W \<and>
        (rc = 0 \<longrightarrow> length (rx_words ?ctl body) = ?W) \<and>
        ram s' = store_bytes (ram s) (buf tinfo)
                   (take (unat (num_bytes tinfo)) (concat (map bytes_of_word (rx_words ?ctl body))))"
    and f: "rc \<noteq> 0 \<longrightarrow>
        (\<exists>sl. map fst tail = recovery_actions C bus sl \<and>
              (is_dvc bus = 0 \<longrightarrow> (Readl (I2c_sl_cnfg (regs bus)), sl) \<in> set tail)) \<and>
        (0 \<le> I2C_TIMEOUT_USEC C \<longrightarrow> body \<noteq> [] \<and>
           (fst (last body) = Udelay 10 \<or>
            (\<exists>x. last body = (Readl (Int_status ?ctl), x) \<and>
                 (x AND I2C_INT_NO_ACK_MASK C \<noteq> 0 \<or>
                  x AND I2C_INT_ARBITRATION_LOST_MASK C \<noteq> 0))))"
    by blast
  let ?pre = "[(Readl (Int_status ?ctl), v), (Writel (Int_status ?ctl) v, a0),
        (Writel (Tx_fifo ?ctl) (header1 C bus 1), a1),
        (Writel (Tx_fifo ?ctl) (header2 C tinfo), a2),
        (Writel (Tx_fifo ?ctl) (header3 C tinfo), a3)]"
  let ?before = "?pre @ body"
  from f assms(2,3) obtain sl where sl: "map fst tail = recovery_actions C bus sl"
    "is_dvc bus = 0 \<longrightarrow> (Readl (I2c_sl_cnfg (regs bus)), sl) \<in> set tail"
    and b: "body \<noteq> []"
      "fst (last body) = Udelay 10 \<or>
            (\<exists>x. last body = (Readl (Int_status ?ctl), x) \<and>
                 (x AND I2C_INT_NO_ACK_MASK C \<noteq> 0 \<or>
                  x AND I2C_INT_ARBITRATION_LOST_MASK C \<noteq> 0))"
    by blast
  have 1: "new_events s s' = ?before @ tail"
    using new_events_append [OF t] by simp
  have lb: "last ?before = last body" using b(1) by simp
  have 2: "?before \<noteq> []" by simp
  have 3: "fst (last ?before) = Udelay 10 \<or>
        (\<exists>x. last ?before = (Readl (Int_status ?ctl), x) \<and>
             (x AND I2C_INT_NO_ACK_MASK C \<noteq> 0 \<or>
              x AND I2C_INT_ARBITRATION_LOST_MASK C \<noteq> 0))"
    unfolding lb by (rule b(2))
  have tx: "tx_words ?ctl ?before =
      [header1 C bus 1, header2 C tinfo, header3 C tinfo] @ tx_words ?ctl body"
    by (simp add: tx_words_Cons)
  have rx: "rx_words ?ctl ?before = rx_words ?ctl body"
    by (simp add: rx_words_Cons)
  have 4: "flags tinfo AND I2C_IS_WRITE C \<noteq> 0 \<longrightarrow>
          rx_words ?ctl ?before = [] \<and>
          (\<exists>n. n \<le> ?W \<and>
               tx_words ?ctl ?before =
                 [header1 C bus 1, header2 C tinfo, header3 C tinfo]
                   @ payload_words (ram s) (buf tinfo) n)"
    unfolding tx rx using w by auto
  have 5: "flags tinfo AND I2C_IS_WRITE C = 0 \<longrightarrow>
          tx_words ?ctl ?before = [header1 C bus 1, header2 C tinfo, header3 C tinfo] \<and>
          length (rx_words ?ctl ?before) \<le> ?W"
    unfolding tx rx using rd by auto
  have 6: "rc = - 1" using r assms(2) by blast
  show ?thesis
    apply (rule conjI [OF 6])
    apply (rule exI [of _ ?before], rule exI [of _ tail], rule exI [of _ sl])
    apply (intro conjI)
            apply (rule 1)
           apply (rule sl(1))
          apply (rule sl(2))
         apply (rule q(1))
        apply (rule q(2))
       apply (rule 2)
      apply (rule 3)
     apply (rule 4)
    apply (rule 5)
    done
qed

text \<open>
  C5. A poll that fails ends the transfer at once, and the recovery path runs before
  \<open>-1\<close> is returned. The word loop starts in the state \<open>transfer_start C hw bus tinfo s\<close>;
  ``the first \<open>j\<close> rounds succeeded and left the state \<open>sj\<close>'' is: the loop run for only
  \<open>j\<close> full words from that state returns \<open>(0, sj)\<close>. \<open>j\<close> is less than the word count
  \<open>ceil(L / 4)\<close>, so that round \<open>j\<close> (counted from 0) exists. Then:

  \<^item> in a write, if the poll for the empty transmit FIFO that follows the write of
    word \<open>j\<close> returns 0 in the state \<open>sf\<close>, the call returns \<open>-1\<close> and the state that
    \<^verbatim>\<open>i2c_reset_controller\<close> makes of \<open>sf\<close>; over the whole call the command FIFO got
    the three header words and the payload words \<open>0 .. j\<close> of the buffer, each once and
    in this order, and the receive FIFO was not read;
  \<^item> in a read, if the poll for the receive FIFO of round \<open>j\<close> returns 0 in the state
    \<open>sf\<close>, the call returns \<open>-1\<close> and the state that \<^verbatim>\<open>i2c_reset_controller\<close> makes of
    \<open>sf\<close>; the receive FIFO was read exactly \<open>j\<close> times, the bytes of these \<open>j\<close> words
    are what the buffer got, and the command FIFO got the three header words only;
  \<^item> if the word loop ran to its end in the state \<open>s4\<close> and the poll for the completion
    of the transfer returns a nonzero value in the state \<open>sf\<close>, the call returns \<open>-1\<close> and
    the state that \<^verbatim>\<open>i2c_reset_controller\<close> makes of \<open>sf\<close>; the FIFO operations are those
    of the \<open>ceil(L / 4)\<close> rounds and no more;
  \<^item> the register accesses of \<^verbatim>\<open>i2c_reset_controller\<close>, from any state, are the
    peripheral reset, the write of the packet-mode value to the configuration register
    and, on a controller that is not a DVC, the read of the slave configuration
    register and its write with the NEWSL bit added;
  \<^item> whenever the call returns a nonzero value (the poll budget being at least 0), that
    value is \<open>-1\<close>, the accesses of the call end with that recovery path, which touches
    neither FIFO, and the access just before it is the last one of a failed poll: the
    delay after which the budget was found exhausted, or the read of the interrupt
    status that showed the no-acknowledge or the arbitration-lost bit. The command
    FIFO got the three header words once, followed in a write by at most
    \<open>ceil(L / 4)\<close> payload words of the buffer from its start, and in a read by nothing.
\<close>

theorem send_recv_packets_poll_failure:
  "(flags tinfo AND I2C_IS_WRITE C \<noteq> 0 \<longrightarrow>
    j < (unat (num_bytes tinfo) + 3) div 4 \<longrightarrow>
    word_loop C hw (control bus) (flags tinfo AND I2C_IS_WRITE C) 0 (of_nat j) (buf tinfo)
      (transfer_start C hw bus tinfo s) = (0, sj) \<longrightarrow>
    wait_for_tx_fifo_empty C hw (control bus)
      (writel hw (load32 (ram sj) (buf tinfo + 4 * of_nat j)) (Tx_fifo (control bus)) sj)
      = (0, sf) \<longrightarrow>
      send_recv_packets C hw bus tinfo s = (- 1, i2c_reset_controller C hw bus sf) \<and>
      tx_words (control bus) (new_events s (i2c_reset_controller C hw bus sf)) =
        [header1 C bus 1, header2 C tinfo, header3 C tinfo]
          @ payload_words (ram s) (buf tinfo) (Suc j) \<and>
      rx_words (control bus) (new_events s (i2c_reset_controller C hw bus sf)) = []) \<and>
   (flags tinfo AND I2C_IS_WRITE C = 0 \<longrightarrow>
    j < (unat (num_bytes tinfo) + 3) div 4 \<longrightarrow>
    word_loop C hw (control bus) (flags tinfo AND I2C_IS_WRITE C) 0 (of_nat j) (buf tinfo)
      (transfer_start C hw bus tinfo s) = (0, sj) \<longrightarrow>
    wait_for_rx_fifo_notempty C hw (control bus) sj = (0, sf) \<longrightarrow>
      send_recv_packets C hw bus tinfo s = (- 1, i2c_reset_controller C hw bus sf) \<and>
      tx_words (control bus) (new_events s (i2c_reset_controller C hw bus sf)) =
        [header1 C bus 1, header2 C tinfo, header3 C tinfo] \<and>
      length (rx_words (control bus) (new_events s (i2c_reset_controller C hw bus sf))) = j \<and>
      ram (i2c_reset_controller C hw bus sf) =
        store_bytes (ram s) (buf tinfo)
          (concat (map bytes_of_word
             (rx_words (control bus) (new_events s (i2c_reset_controller C hw bus sf)))))) \<and>
   (word_loop C hw (control bus) (flags tinfo AND I2C_IS_WRITE C)
      (ucast (num_bytes tinfo AND 3)) (DIV_ROUND_UP (num_bytes tinfo) 4) (buf tinfo)
      (transfer_start C hw bus tinfo s) = (0, s4) \<longrightarrow>
    wait_for_transfer_complete C hw (control bus) s4 = (x, sf) \<longrightarrow> x \<noteq> 0 \<longrightarrow>
      send_recv_packets C hw bus tinfo s = (- 1, i2c_reset_controller C hw bus sf) \<and>
      (flags tinfo AND I2C_IS_WRITE C \<noteq> 0 \<longrightarrow>
         tx_words (control bus) (new_events s (i2c_reset_controller C hw bus sf)) =
           [header1 C bus 1, header2 C tinfo, header3 C tinfo]
             @ payload_words (ram s) (buf tinfo) ((unat (num_bytes tinfo) + 3) div 4) \<and>
         rx_words (control bus) (new_events s (i2c_reset_controller C hw bus sf)) = []) \<and>
      (flags tinfo AND I2C_IS_WRITE C = 0 \<longrightarrow>
         tx_words (control bus) (new_events s (i2c_reset_controller C hw bus sf)) =
           [header1 C bus 1, header2 C tinfo, header3 C tinfo] \<and>
         length (rx_words (control bus) (new_events s (i2c_reset_controller C hw bus sf)))
           = (unat (num_bytes tinfo) + 3) div 4)) \<and>
   (\<exists>sl. new_actions sf (i2c_reset_controller C hw bus sf) = recovery_actions C bus sl \<and>
         (is_dvc bus = 0 \<longrightarrow>
            (Readl (I2c_sl_cnfg (regs bus)), sl)
              \<in> set (new_events sf (i2c_reset_controller C hw bus sf)))) \<and>
   (send_recv_packets C hw bus tinfo s = (rc, s') \<longrightarrow> rc \<noteq> 0 \<longrightarrow>
    0 \<le> I2C_TIMEOUT_USEC C \<longrightarrow>
      rc = - 1 \<and>
      (\<exists>before tail sl.
         new_events s s' = before @ tail \<and>
         map fst tail = recovery_actions C bus sl \<and>
         (is_dvc bus = 0 \<longrightarrow> (Readl (I2c_sl_cnfg (regs bus)), sl) \<in> set tail) \<and>
         tx_words (control bus) tail = [] \<and> rx_words (control bus) tail = [] \<and>
         before \<noteq> [] \<and>
         (fst (last before) = Udelay 10 \<or>
          (\<exists>x. last before = (Readl (Int_status (control bus)), x) \<and>
               (x AND I2C_INT_NO_ACK_MASK C \<noteq> 0 \<or>
                x AND I2C_INT_ARBITRATION_LOST_MASK C \<noteq> 0))) \<and>
         (flags tinfo AND I2C_IS_WRITE C \<noteq> 0 \<longrightarrow>
            rx_words (control bus) before = [] \<and>
            (\<exists>n. n \<le> (unat (num_bytes tinfo) + 3) div 4 \<and>
                 tx_words (control bus) before =
                   [header1 C bus 1, header2 C tinfo, header3 C tinfo]
                     @ payload_words (ram s) (buf tinfo) n)) \<and>
         (flags tinfo AND I2C_IS_WRITE C = 0 \<longrightarrow>
            tx_words (control bus) before =
              [header1 C bus 1, header2 C tinfo, header3 C tinfo] \<and>
            length (rx_words (control bus) before) \<le> (unat (num_bytes tinfo) + 3) div 4)))"
  (is "?A \<and> ?B \<and> ?D \<and> ?R \<and> ?N")
proof (intro conjI)
  show ?A
    by (intro impI conjI)
       (erule (3) send_recv_packets_tx_abort(1), erule (3) send_recv_packets_tx_abort(2),
        erule (3) send_recv_packets_tx_abort(3))
  show ?B
    by (intro impI conjI)
       (erule (3) send_recv_packets_rx_abort(1), erule (3) send_recv_packets_rx_abort(2),
        erule (3) send_recv_packets_rx_abort(3), erule (3) send_recv_packets_rx_abort(4))
  show ?D
  proof (intro impI)
    assume a: "word_loop C hw (control bus) (flags tinfo AND I2C_IS_WRITE C)
      (ucast (num_bytes tinfo AND 3)) (DIV_ROUND_UP (num_bytes tinfo) 4) (buf tinfo)
      (transfer_start C hw bus tinfo s) = (0, s4)"
      and b: "wait_for_transfer_complete C hw (control bus) s4 = (x, sf)" and c: "x \<noteq> 0"
    have r: "send_recv_packets C hw bus tinfo s = (- 1, i2c_reset_controller C hw bus sf)"
      using a b c by (rule send_recv_packets_tc_abort)
    note d = send_recv_packets_loop_done [OF a, unfolded r snd_conv]
    show "send_recv_packets C hw bus tinfo s = (- 1, i2c_reset_controller C hw bus sf) \<and>
      (flags tinfo AND I2C_IS_WRITE C \<noteq> 0 \<longrightarrow>
         tx_words (control bus) (new_events s (i2c_reset_controller C hw bus sf)) =
           [header1 C bus 1, header2 C tinfo, header3 C tinfo]
             @ payload_words (ram s) (buf tinfo) ((unat (num_bytes tinfo) + 3) div 4) \<and>
         rx_words (control bus) (new_events s (i2c_reset_controller C hw bus sf)) = []) \<and>
      (flags tinfo AND I2C_IS_WRITE C = 0 \<longrightarrow>
         tx_words (control bus) (new_events s (i2c_reset_controller C hw bus sf)) =
           [header1 C bus 1, header2 C tinfo, header3 C tinfo] \<and>
         length (rx_words (control bus) (new_events s (i2c_reset_controller C hw bus sf)))
           = (unat (num_bytes tinfo) + 3) div 4)"
      by (intro conjI) (rule r, rule d(1), rule d(2))
  qed
  show ?R
  proof -
    from i2c_reset_controller_trace [of C hw bus sf] obtain revs sl where rv:
      "trace (i2c_reset_controller C hw bus sf) = trace sf @ revs"
      "map fst revs = recovery_actions C bus sl"
      "is_dvc bus = 0 \<longrightarrow> (Readl (I2c_sl_cnfg (regs bus)), sl) \<in> set revs" by blast
    note ne = new_events_append [OF rv(1)]
    show ?thesis
      unfolding new_actions_def ne using rv(2,3) by blast
  qed
  show ?N
    by (intro impI) (erule (2) send_recv_packets_nonzero)
qed

theorem send_recv_packets_poll_failure_witness:
  "send_recv_packets sample_consts (stalling_hw 1 0x80 0x80 0) sample_bus
      (sample_write\<lparr>num_bytes := 9\<rparr>) (init_sys 0 sample_ram [])
     = (- 1, snd (send_recv_packets sample_consts (stalling_hw 1 0x80 0x80 0) sample_bus
                    (sample_write\<lparr>num_bytes := 9\<rparr>) (init_sys 0 sample_ram []))) \<and>
   (unat (num_bytes (sample_write\<lparr>num_bytes := 9\<rparr>)) + 3) div 4 = 3 \<and>
   tx_words (control sample_bus)
     (new_events (init_sys 0 sample_ram [])
        (snd (send_recv_packets sample_consts (stalling_hw 1 0x80 0x80 0) sample_bus
                (sample_write\<lparr>num_bytes := 9\<rparr>) (init_sys 0 sample_ram []))))
     = [0x10010, 8, 0xA0, 0x04030201, 0x08070605] \<and>
   send_recv_packets sample_consts (stalling_hw 1 0x01 0x80 0x44332211) sample_bus
      (sample_read\<lparr>num_bytes := 9\<rparr>) (init_sys 0 sample_ram [])
     = (- 1, snd (send_recv_packets sample_consts (stalling_hw 1 0x01 0x80 0x44332211) sample_bus
                    (sample_read\<lparr>num_bytes := 9\<rparr>) (init_sys 0 sample_ram []))) \<and>
   length (rx_words (control sample_bus)
     (new_events (init_sys 0 sample_ram [])
        (snd (send_recv_packets sample_consts (stalling_hw 1 0x01 0x80 0x44332211) sample_bus
                (sample_read\<lparr>num_bytes := 9\<rparr>) (init_sys 0 sample_ram []))))) = 1 \<and>
   send_recv_packets sample_consts (const_hw 0x80 0x8 0) sample_bus sample_write
      (init_sys () sample_ram [])
     = (- 1, snd (send_recv_packets sample_consts (const_hw 0x80 0x8 0) sample_bus sample_write
                    (init_sys () sample_ram []))) \<and>
   tx_words (control sample_bus)
     (new_events (init_sys () sample_ram [])
        (snd (send_recv_packets sample_consts (const_hw 0x80 0x8 0) sample_bus sample_write
                (init_sys () sample_ram []))))
     = [0x10010, 4, 0xA0, 0x04030201, 0x08070605]"
proof -
  let ?C = sample_consts
  let ?ctl = "control sample_bus"
  have d0: "tx_empty_decide ?C 0 = None" "rx_notempty_decide ?C 0 = None"
    by (simp_all add: tx_empty_decide_def rx_notempty_decide_def tx_fifo_empty_cnt_def
        tx_fifo_full_cnt_def sample_consts_def)
  have hd1: "header1 ?C sample_bus 1 = 0x10010"
    by (simp add: header1_def sample_consts_def sample_bus_def)

  let ?hw = "stalling_hw 1 0x80 0x80 0"
  let ?wr = "sample_write\<lparr>num_bytes := 9\<rparr>"
  let ?s0 = "init_sys 0 sample_ram [] :: nat sys"
  let ?P = "word_loop ?C ?hw ?ctl (flags ?wr AND I2C_IS_WRITE ?C) 0 (of_nat 1) (buf ?wr)
              (transfer_start ?C ?hw sample_bus ?wr ?s0)"
  let ?s1 = "writel ?hw (load32 (ram (snd ?P)) (buf ?wr + 4 * of_nat 1)) (Tx_fifo ?ctl) (snd ?P)"
  let ?F = "wait_for_tx_fifo_empty ?C ?hw ?ctl ?s1"
  have a1: "flags ?wr AND I2C_IS_WRITE ?C \<noteq> 0" by (simp add: sample_write_def sample_consts_def)
  have a2: "1 < (unat (num_bytes ?wr) + 3) div 4" by simp
  have "fst ?P = 0" by code_simp
  then have a3: "?P = (0, snd ?P)" by (metis prod.collapse)
  have "1 \<le> dev ?s1" by code_simp
  then have "fst ?F = 0" by (rule wait_for_tx_fifo_empty_stalled [OF d0(1)])
  then have a4: "?F = (0, snd ?F)" by (metis prod.collapse)
  note A = send_recv_packets_poll_failure [where C = ?C and hw = ?hw and bus = sample_bus
      and tinfo = ?wr and s = ?s0 and j = 1 and sj = "snd ?P" and sf = "snd ?F",
      THEN conjunct1, rule_format, OF a1 a2 a3 a4]
  have hA: "header2 ?C ?wr = 8" "header3 ?C ?wr = 0xA0"
    by (simp_all add: header2_def header3_def sample_consts_def sample_write_def)
  have pA: "payload_words (ram ?s0) (buf ?wr) (Suc 1) = [0x04030201, 0x08070605]"
    by code_simp
  have rA: "send_recv_packets ?C ?hw sample_bus ?wr ?s0
              = (- 1, snd (send_recv_packets ?C ?hw sample_bus ?wr ?s0))"
    using A by simp
  have tA: "tx_words ?ctl (new_events ?s0 (snd (send_recv_packets ?C ?hw sample_bus ?wr ?s0)))
              = [0x10010, 8, 0xA0, 0x04030201, 0x08070605]"
    using A unfolding hd1 hA pA by simp

  let ?hwr = "stalling_hw 1 0x01 0x80 0x44332211"
  let ?rd = "sample_read\<lparr>num_bytes := 9\<rparr>"
  let ?Q = "word_loop ?C ?hwr ?ctl (flags ?rd AND I2C_IS_WRITE ?C) 0 (of_nat 1) (buf ?rd)
              (transfer_start ?C ?hwr sample_bus ?rd ?s0)"
  let ?G = "wait_for_rx_fifo_notempty ?C ?hwr ?ctl (snd ?Q)"
  have b1: "flags ?rd AND I2C_IS_WRITE ?C = 0" by (simp add: sample_read_def sample_consts_def)
  have b2: "1 < (unat (num_bytes ?rd) + 3) div 4" by simp
  have "fst ?Q = 0" by code_simp
  then have b3: "?Q = (0, snd ?Q)" by (metis prod.collapse)
  have "1 \<le> dev (snd ?Q)" by code_simp
  then have "fst ?G = 0" by (rule wait_for_rx_fifo_notempty_stalled [OF d0(2)])
  then have b4: "?G = (0, snd ?G)" by (metis prod.collapse)
  note B = send_recv_packets_poll_failure [where C = ?C and hw = ?hwr and bus = sample_bus
      and tinfo = ?rd and s = ?s0 and j = 1 and sj = "snd ?Q" and sf = "snd ?G",
      THEN conjunct2, THEN conjunct1, rule_format, OF b1 b2 b3 b4]
  have rB: "send_recv_packets ?C ?hwr sample_bus ?rd ?s0
              = (- 1, snd (send_recv_packets ?C ?hwr sample_bus ?rd ?s0))"
    using B by simp
  have tB: "length (rx_words ?ctl
              (new_events ?s0 (snd (send_recv_packets ?C ?hwr sample_bus ?rd ?s0)))) = 1"
    using B by simp

  let ?hwn = "const_hw 0x80 0x8 0"
  let ?u0 = "init_sys () sample_ram [] :: unit sys"
  let ?L = "word_loop ?C ?hwn ?ctl (flags sample_write AND I2C_IS_WRITE ?C)
              (ucast (num_bytes sample_write AND 3)) (DIV_ROUND_UP (num_bytes sample_write) 4)
              (buf sample_write) (transfer_start ?C ?hwn sample_bus sample_write ?u0)"
  let ?T = "wait_for_transfer_complete ?C ?hwn ?ctl (snd ?L)"
  have "fst ?L = 0" by code_simp
  then have c1: "?L = (0, snd ?L)" by (metis prod.collapse)
  have c2: "?T = (fst ?T, snd ?T)" by simp
  have c3: "fst ?T \<noteq> 0" by code_simp
  have c4: "flags sample_write AND I2C_IS_WRITE ?C \<noteq> 0"
    by (simp add: sample_write_def sample_consts_def)
  note D = send_recv_packets_poll_failure [where C = ?C and hw = ?hwn and bus = sample_bus
      and tinfo = sample_write and s = ?u0 and ?s4.0 = "snd ?L" and x = "fst ?T"
      and sf = "snd ?T",
      THEN conjunct2, THEN conjunct2, THEN conjunct1, rule_format, OF c1 c2 c3]
  have hD: "header2 ?C sample_write = 4" "header3 ?C sample_write = 0xA0"
    by (simp_all add: header2_def header3_def sample_consts_def sample_write_def)
  have pD: "payload_words (ram ?u0) (buf sample_write) ((unat (num_bytes sample_write) + 3) div 4)
              = [0x04030201, 0x08070605]"
    by code_simp
  have rD: "send_recv_packets ?C ?hwn sample_bus sample_write ?u0
              = (- 1, snd (send_recv_packets ?C ?hwn sample_bus sample_write ?u0))"
    using D by simp
  have tD: "tx_words ?ctl
              (new_events ?u0 (snd (send_recv_packets ?C ?hwn sample_bus sample_write ?u0)))
              = [0x10010, 4, 0xA0, 0x04030201, 0x08070605]"
    using D c4 unfolding hd1 hD pD by simp
  have w: "(unat (num_bytes ?wr) + 3) div 4 = 3" by simp
  show ?thesis
    by (intro conjI) (rule rA, rule w, rule tA, rule rB, rule tB, rule rD, rule tD)
qed






subsection \<open>The words and the memory of a transfer\<close>









end
